theory Spec2Isabelle
  imports Main
begin

section \<open>Go library functions called by main.go\<close>

text \<open>
  A Go string is a sequence of bytes, modelled as \<^typ>\<open>string\<close>. The functions of
  this section belong to Go's standard library; each is modelled after its documented
  behaviour, as far as main.go uses it.
\<close>

subsection \<open>strings.Split\<close>

text \<open>
  \<^verbatim>\<open>strings.Split(s, sep)\<close> cuts \<open>s\<close> at every occurrence of \<open>sep\<close> and
  returns the pieces between them; a string without separator is returned whole, so the
  result always has at least one element. main.go only passes the one-byte separators
  comma, newline and tab, so the separator is a \<^typ>\<open>char\<close> here. \<open>split_from cur\<close>
  scans the rest of the string, \<open>cur\<close> being the bytes of the piece in progress.
\<close>

fun split_from :: "string \<Rightarrow> char \<Rightarrow> string \<Rightarrow> string list" where
  "split_from cur sep [] = [cur]"
| "split_from cur sep (c # s) =
     (if c = sep then cur # split_from [] sep s else split_from (cur @ [c]) sep s)"

definition Split :: "string \<Rightarrow> char \<Rightarrow> string list" where
  "Split s sep = split_from [] sep s"

subsection \<open>strings.TrimSpace\<close>

text \<open>
  \<^verbatim>\<open>strings.TrimSpace\<close> removes every leading and every trailing white space
  character, as Unicode defines it (\<^verbatim>\<open>unicode.IsSpace\<close>): the six ASCII
  characters tab, newline, vertical tab, form feed, carriage return and space, then
  U+0085 and U+00A0 (two bytes each in UTF-8), and U+1680, U+2000 to U+200A, U+2028,
  U+2029, U+202F, U+205F and U+3000 (three bytes each). A byte that starts no valid
  encoding decodes to U+FFFD, which is no space, so a space is recognised exactly by the
  bytes of its encoding.
\<close>

definition asciiSpace :: "char \<Rightarrow> bool" where
  "asciiSpace c \<longleftrightarrow>
     c = CHR 0x09 \<or> c = CHR 0x0A \<or> c = CHR 0x0B \<or> c = CHR 0x0C \<or> c = CHR 0x0D \<or> c = CHR 0x20"

definition space2 :: "char \<Rightarrow> char \<Rightarrow> bool" where
  "space2 a b \<longleftrightarrow> a = CHR 0xC2 \<and> (b = CHR 0x85 \<or> b = CHR 0xA0)"

definition space3 :: "char \<Rightarrow> char \<Rightarrow> char \<Rightarrow> bool" where
  "space3 a b c \<longleftrightarrow>
     (a = CHR 0xE1 \<and> b = CHR 0x9A \<and> c = CHR 0x80) \<or>
     (a = CHR 0xE2 \<and> b = CHR 0x80 \<and>
        (((0x80::nat) \<le> of_char c \<and> (of_char c :: nat) \<le> 0x8A) \<or>
         c = CHR 0xA8 \<or> c = CHR 0xA9 \<or> c = CHR 0xAF)) \<or>
     (a = CHR 0xE2 \<and> b = CHR 0x81 \<and> c = CHR 0x9F) \<or>
     (a = CHR 0xE3 \<and> b = CHR 0x80 \<and> c = CHR 0x80)"

text \<open>
  \<open>trim_runes False\<close> drops the white space at the front of a string.
  \<open>trim_runes True\<close> does the same on a reversed string, where the bytes of an
  encoding come last byte first: it is the trimming at the end.
\<close>

fun trim_runes :: "bool \<Rightarrow> string \<Rightarrow> string" where
  "trim_runes back (a # b # c # s) =
     (if asciiSpace a then trim_runes back (b # c # s)
      else if (if back then space2 b a else space2 a b) then trim_runes back (c # s)
      else if (if back then space3 c b a else space3 a b c) then trim_runes back s
      else a # b # c # s)"
| "trim_runes back [a, b] =
     (if asciiSpace a then trim_runes back [b]
      else if (if back then space2 b a else space2 a b) then []
      else [a, b])"
| "trim_runes back [a] = (if asciiSpace a then [] else [a])"
| "trim_runes back [] = []"

definition TrimSpace :: "string \<Rightarrow> string" where
  "TrimSpace s = rev (trim_runes True (rev (trim_runes False s)))"

subsection \<open>encoding/json\<close>

text \<open>
  \<^verbatim>\<open>json.Unmarshal\<close> first checks the syntax of the text and then stores the
  values into the Go variable. The syntax of JSON texts is not modelled: the reading of
  a text into a value tree is a parameter of the environment (\<open>json_scan\<close> below). What
  is modelled is how a value tree is stored into a \<^verbatim>\<open>[]starsData\<close>.
\<close>

type_synonym go_error = string

datatype json =
    JNull
  | JBool bool
  | JNumber string
  | JString string
  | JArray "json list"
  | JObject "(string \<times> json) list"

text \<open>
  \<^verbatim>\<open>type starsData struct { FullName string `json:"full_name,omitempty"` }\<close>
\<close>

record starsData =
  FullName :: string

text \<open>
  A value that cannot be stored into the Go variable is a type error. The functions below
  only say that there is one; the text of the error that \<^verbatim>\<open>json.Unmarshal\<close>
  returns for it depends on the value, the Go type and the field, and is a parameter of
  the environment (\<open>type_error\<close> below).
\<close>

datatype mismatch = Mismatch

text \<open>
  An object key is matched with the field's name \<open>full_name\<close> exactly or ignoring the
  case of letters. A string is stored, \<open>null\<close> leaves the field as it is, any other
  value is a type error. A later key overrides an earlier one.
\<close>

definition ascii_lower :: "char \<Rightarrow> char" where
  "ascii_lower c =
     (if (65::nat) \<le> of_char c \<and> (of_char c :: nat) \<le> 90
      then char_of ((of_char c :: nat) + 32) else c)"

fun decode_object :: "(string \<times> json) list \<Rightarrow> starsData \<Rightarrow> mismatch + starsData" where
  "decode_object [] v = Inr v"
| "decode_object ((k, j) # kvs) v =
     (if map ascii_lower k = ''full_name''
      then (case j of
              JString s \<Rightarrow> decode_object kvs (v\<lparr>FullName := s\<rparr>)
            | JNull \<Rightarrow> decode_object kvs v
            | _ \<Rightarrow> Inl Mismatch)
      else decode_object kvs v)"

text \<open>An element of the array is an object or \<open>null\<close> (which leaves the zero value).\<close>

definition decode_elem :: "json \<Rightarrow> mismatch + starsData" where
  "decode_elem j =
     (case j of
        JObject kvs \<Rightarrow> decode_object kvs \<lparr>FullName = []\<rparr>
      | JNull \<Rightarrow> Inr \<lparr>FullName = []\<rparr>
      | _ \<Rightarrow> Inl Mismatch)"

fun decode_array :: "json list \<Rightarrow> mismatch + starsData list" where
  "decode_array [] = Inr []"
| "decode_array (j # js) =
     (case decode_elem j of
        Inl e \<Rightarrow> Inl e
      | Inr v \<Rightarrow> (case decode_array js of Inl e \<Rightarrow> Inl e | Inr vs \<Rightarrow> Inr (v # vs)))"

definition decode_starsData_slice :: "json \<Rightarrow> mismatch + starsData list" where
  "decode_starsData_slice j =
     (case j of
        JArray js \<Rightarrow> decode_array js
      | JNull \<Rightarrow> Inr []
      | _ \<Rightarrow> Inl Mismatch)"

section \<open>The world outside the process\<close>

text \<open>
  The program runs external commands, sends one HTTP request per account and writes to
  standard output and to the log. Each of these is recorded as an event of the trace,
  in the order of execution. An event records the call, with the place of the call in
  main.go for a command, and not the answer. What a command or a request answers is
  decided by the environment, which sees the trace so far: the same command may succeed
  once and fail the next time.
\<close>

datatype site = GhList | MainClone | WikiClone

datatype logline =
    CantGetStarred string go_error
  | CantReadBody go_error
  | CantParseJson go_error string
  | Fatal go_error

datatype event =
    Exec site "string list"
  | HttpGet string
  | Printf int string
  | Log logline

datatype http_result = GetError go_error | ReadError go_error | Body string

record env =
  exec_output :: "event list \<Rightarrow> string list \<Rightarrow> go_error + string"
  exec_run :: "event list \<Rightarrow> string list \<Rightarrow> go_error option"
  http_get :: "event list \<Rightarrow> string \<Rightarrow> http_result"
  json_scan :: "string \<Rightarrow> go_error + json"
  type_error :: "string \<Rightarrow> go_error"
  growslice :: "nat \<Rightarrow> nat"

text \<open>
  \<open>exec_output\<close> is \<^verbatim>\<open>exec.Command(...).Output()\<close> (the error, or the standard
  output), \<open>exec_run\<close> is \<^verbatim>\<open>exec.Command(...).Run()\<close> (the error, if any),
  \<open>http_get\<close> is \<^verbatim>\<open>http.Get\<close> followed by \<^verbatim>\<open>ioutil.ReadAll\<close> of the
  body, \<open>json_scan\<close> is the reading of a JSON text (the syntax error, or the value
  tree), \<open>type_error\<close> is the error that \<^verbatim>\<open>json.Unmarshal\<close> returns for a
  text with a value that cannot be stored into a \<^verbatim>\<open>[]starsData\<close>, and
  \<open>growslice\<close> is the capacity the runtime chooses when \<^verbatim>\<open>append\<close> has to
  move a slice of the given capacity.
\<close>

definition Unmarshal :: "env \<Rightarrow> string \<Rightarrow> go_error + starsData list" where
  "Unmarshal E body =
     (case json_scan E body of
        Inl e \<Rightarrow> Inl e
      | Inr j \<Rightarrow>
          (case decode_starsData_slice j of
             Inl m \<Rightarrow> Inl (type_error E body)
           | Inr jsonData \<Rightarrow> Inr jsonData))"

section \<open>The state of the process\<close>

text \<open>
  \<open>reponum\<close> is the package variable of main.go (an \<^verbatim>\<open>int\<close> of 64 bits, which no
  run can overflow: every increment starts two processes). The heap holds the backing
  arrays of the slices that the program appends to; an address is an index into it.
\<close>

record state =
  reponum :: int
  trace :: "event list"
  heap :: "string list list"

definition init_state :: state where
  "init_state = \<lparr>reponum = 0, trace = [], heap = []\<rparr>"

text \<open>
  A function returns, or the process ends in \<^verbatim>\<open>log.Fatal\<close> (exit status 1), or
  it ends in a run-time panic (exit status 2).
\<close>

datatype 'a outcome = Return 'a state | Exit state | Panic state

fun final :: "'a outcome \<Rightarrow> state" where
  "final (Return v st) = st"
| "final (Exit st) = st"
| "final (Panic st) = st"

fun exit_status :: "'a outcome \<Rightarrow> nat" where
  "exit_status (Return v st) = 0"
| "exit_status (Exit st) = 1"
| "exit_status (Panic st) = 2"

subsection \<open>Slices\<close>

text \<open>
  A slice is a pointer to a backing array, a length and a capacity.
  \<^verbatim>\<open>append(s, v)\<close> writes in place when the capacity allows it, and otherwise
  copies the elements into a new, larger array.
\<close>

record slice =
  ptr :: nat
  len :: nat
  cap :: nat

definition nil_slice :: slice where
  "nil_slice = \<lparr>ptr = 0, len = 0, cap = 0\<rparr>"

definition slice_elems :: "string list list \<Rightarrow> slice \<Rightarrow> string list" where
  "slice_elems h s = take (len s) (h ! ptr s)"

definition append_go :: "env \<Rightarrow> string list list \<Rightarrow> slice \<Rightarrow> string \<Rightarrow> string list list \<times> slice" where
  "append_go E h s v =
     (if len s < cap s
      then (h[ptr s := (h ! ptr s)[len s := v]], s\<lparr>len := len s + 1\<rparr>)
      else
        (let c = max (len s + 1) (growslice E (cap s))
         in (h @ [slice_elems h s @ v # replicate (c - (len s + 1)) []],
             \<lparr>ptr = length h, len = len s + 1, cap = c\<rparr>)))"

section \<open>main.go\<close>

subsection \<open>inSlise\<close>

fun inSlise :: "string \<Rightarrow> string list \<Rightarrow> bool" where
  "inSlise el [] = False"
| "inSlise el (a # ar) = (if TrimSpace a = el then True else inSlise el ar)"

text \<open>The guard of the loop of cloneRepos: \<^verbatim>\<open>len(limit) == 0 || inSlise(repo, limit)\<close>.\<close>

definition included :: "string \<Rightarrow> string list \<Rightarrow> bool" where
  "included repo limit \<longleftrightarrow> length limit = 0 \<or> inSlise repo limit"

subsection \<open>cloneRepos\<close>

definition main_argv :: "string \<Rightarrow> string \<Rightarrow> string list" where
  "main_argv dir repo =
     [''git'', ''clone'', ''--mirror'',
      ''git@github.com:'' @ repo @ ''.git'', dir @ ''/'' @ repo @ ''.git'']"

definition wiki_argv :: "string \<Rightarrow> string \<Rightarrow> string list" where
  "wiki_argv dir repo =
     [''git'', ''clone'', ''--mirror'',
      ''git@github.com:'' @ repo @ ''.wiki.git'', dir @ ''/'' @ repo @ ''.wiki.git'']"

definition emit :: "event \<Rightarrow> state \<Rightarrow> state" where
  "emit e st = st\<lparr>trace := trace st @ [e]\<rparr>"

text \<open>
  One pass through the body of the loop of cloneRepos, for the element \<open>repo\<close>. The
  body assigns to the variable \<open>repos\<close>, so it takes the slice and gives the new one
  back. It ends in \<open>Next\<close> (go on with the next element) or in \<open>Halt\<close>
  (\<^verbatim>\<open>log.Fatal\<close>). The error of the wiki clone is assigned and tested, and the
  branch of the test is empty.
\<close>

datatype step = Next slice state | Halt state

definition cloneRepos_body ::
  "env \<Rightarrow> string list \<Rightarrow> string \<Rightarrow> string \<Rightarrow> slice \<Rightarrow> state \<Rightarrow> step" where
  "cloneRepos_body E limit dir repo repos st =
     (if \<not> included repo limit then Next repos st
      else
        (let st1 = st\<lparr>reponum := reponum st + 1\<rparr>;
             st2 = emit (Printf (reponum st1) repo) st1;
             (h, repos') = append_go E (heap st2) repos repo;
             st3 = st2\<lparr>heap := h\<rparr>;
             res = exec_output E (trace st3) (main_argv dir repo);
             st4 = emit (Exec MainClone (main_argv dir repo)) st3
         in case res of
              Inl err \<Rightarrow> Halt (emit (Log (Fatal err)) st4)
            | Inr out \<Rightarrow>
                (let err = exec_run E (trace st4) (wiki_argv dir repo);
                     st5 = emit (Exec WikiClone (wiki_argv dir repo)) st4
                 in case err of
                      Some e \<Rightarrow> Next repos' st5
                    | None \<Rightarrow> Next repos' st5)))"

text \<open>
  \<^verbatim>\<open>for _, repo := range repos\<close> evaluates \<open>repos\<close> once: \<open>rng\<close> is that slice
  and the list of indices is what is left of \<open>0 ..< len rng\<close>. Each element is read
  from the backing array of \<open>rng\<close> when its turn comes. The variable \<open>repos\<close> of the
  body is another argument, because the body assigns to it; both may point to the same
  backing array. \<open>cloned\<close> is the result variable, which the body never assigns.
\<close>

fun cloneRepos_range ::
  "env \<Rightarrow> slice \<Rightarrow> nat list \<Rightarrow> string list \<Rightarrow> string \<Rightarrow> slice \<Rightarrow> string list \<Rightarrow> state
     \<Rightarrow> string list outcome" where
  "cloneRepos_range E rng [] limit dir repos cloned st = Return cloned st"
| "cloneRepos_range E rng (i # is) limit dir repos cloned st =
     (case cloneRepos_body E limit dir (heap st ! ptr rng ! i) repos st of
        Halt s \<Rightarrow> Exit s
      | Next repos' st' \<Rightarrow> cloneRepos_range E rng is limit dir repos' cloned st')"

definition cloneRepos ::
  "env \<Rightarrow> slice \<Rightarrow> string list \<Rightarrow> string \<Rightarrow> state \<Rightarrow> string list outcome" where
  "cloneRepos E repos limit dir st =
     cloneRepos_range E repos [0 ..< len repos] limit dir repos [] st"

subsection \<open>getRepos\<close>

definition gh_argv :: "string \<Rightarrow> string \<Rightarrow> string list" where
  "gh_argv user maxrepo = [''gh'', ''repo'', ''list'', user, ''-L'', maxrepo]"

text \<open>The loop over the lines of the output; \<^verbatim>\<open>words[0]\<close> panics on an empty slice.\<close>

fun getRepos_parse :: "env \<Rightarrow> string list \<Rightarrow> slice \<Rightarrow> state \<Rightarrow> slice outcome" where
  "getRepos_parse E [] repos st = Return repos st"
| "getRepos_parse E (l # strs) repos st =
     (if length l = 0 then getRepos_parse E strs repos st
      else
        (case Split l (CHR 0x09) of
           [] \<Rightarrow> Panic st
         | w # words \<Rightarrow>
             (let (h, repos') = append_go E (heap st) repos w
              in getRepos_parse E strs repos' (st\<lparr>heap := h\<rparr>))))"

definition getRepos ::
  "env \<Rightarrow> string \<Rightarrow> string \<Rightarrow> string \<Rightarrow> string list \<Rightarrow> state \<Rightarrow> slice outcome" where
  "getRepos E dir user maxrepo limit st =
     (let res = exec_output E (trace st) (gh_argv user maxrepo);
          st1 = emit (Exec GhList (gh_argv user maxrepo)) st
      in case res of
           Inl err \<Rightarrow> Exit (emit (Log (Fatal err)) st1)
         | Inr out \<Rightarrow>
             (case getRepos_parse E (Split out (CHR 0x0A)) nil_slice st1 of
                Return repos st2 \<Rightarrow>
                  (case cloneRepos E repos limit dir st2 of
                     Return cloned st3 \<Rightarrow> Return repos st3
                   | Exit s \<Rightarrow> Exit s
                   | Panic s \<Rightarrow> Panic s)
              | Exit s \<Rightarrow> Exit s
              | Panic s \<Rightarrow> Panic s))"

subsection \<open>getStars\<close>

definition starred_url :: "string \<Rightarrow> string \<Rightarrow> string" where
  "starred_url user maxrepo =
     ''https://api.github.com/users/'' @ user @ ''/starred?page=1&per_page='' @ maxrepo"

text \<open>The loop over the unmarshalled entries.\<close>

fun getStars_collect :: "env \<Rightarrow> starsData list \<Rightarrow> slice \<Rightarrow> state \<Rightarrow> slice \<times> state" where
  "getStars_collect E [] repos st = (repos, st)"
| "getStars_collect E (d # jsonData) repos st =
     (let (h, repos') = append_go E (heap st) repos (FullName d)
      in getStars_collect E jsonData repos' (st\<lparr>heap := h\<rparr>))"

definition getStars ::
  "env \<Rightarrow> string \<Rightarrow> string \<Rightarrow> string \<Rightarrow> string list \<Rightarrow> state \<Rightarrow> slice outcome" where
  "getStars E dir user maxrepo limit st =
     (let res = http_get E (trace st) (starred_url user maxrepo);
          st1 = emit (HttpGet (starred_url user maxrepo)) st
      in case res of
           GetError err \<Rightarrow> Return nil_slice (emit (Log (CantGetStarred user err)) st1)
         | ReadError err \<Rightarrow> Return nil_slice (emit (Log (CantReadBody err)) st1)
         | Body body \<Rightarrow>
             (case Unmarshal E body of
                Inl err \<Rightarrow> Return nil_slice (emit (Log (CantParseJson err body)) st1)
              | Inr jsonData \<Rightarrow>
                  (let (repos, st2) = getStars_collect E jsonData nil_slice st1
                   in case cloneRepos E repos limit dir st2 of
                        Return cloned st3 \<Rightarrow> Return repos st3
                      | Exit s \<Rightarrow> Exit s
                      | Panic s \<Rightarrow> Panic s)))"

subsection \<open>main\<close>

text \<open>
  The values of the command-line flags, as \<^verbatim>\<open>flag.Parse\<close> leaves them
  (\<open>output_dir\<close> is the variable \<^verbatim>\<open>output\<close>).
\<close>

record config =
  userslist :: string
  limitslist :: string
  output_dir :: string
  stars :: bool
  starsonly :: bool
  maxrepo :: string

text \<open>
  The loop of main over the accounts, then the allow-list as main computes it, then main.
\<close>

fun main_users :: "env \<Rightarrow> config \<Rightarrow> string list \<Rightarrow> string list \<Rightarrow> state \<Rightarrow> unit outcome" where
  "main_users E cfg limit [] st = Return () st"
| "main_users E cfg limit (user # users) st =
     (case (if \<not> starsonly cfg
            then getRepos E (output_dir cfg) (TrimSpace user) (maxrepo cfg) limit st
            else Return nil_slice st) of
        Exit s \<Rightarrow> Exit s
      | Panic s \<Rightarrow> Panic s
      | Return r1 st1 \<Rightarrow>
          (case (if stars cfg \<or> starsonly cfg
                 then getStars E (output_dir cfg) (TrimSpace user) (maxrepo cfg) limit st1
                 else Return nil_slice st1) of
             Exit s \<Rightarrow> Exit s
           | Panic s \<Rightarrow> Panic s
           | Return r2 st2 \<Rightarrow> main_users E cfg limit users st2))"

definition parse_limit :: "string \<Rightarrow> string list" where
  "parse_limit s =
     (if length (TrimSpace s) \<noteq> 0 then Split s (CHR '','') else [])"

definition main :: "env \<Rightarrow> config \<Rightarrow> state \<Rightarrow> unit outcome" where
  "main E cfg st =
     main_users E cfg (parse_limit (limitslist cfg)) (Split (userslist cfg) (CHR '','')) st"

section \<open>Notions used in the statements\<close>

subsection \<open>Well-formed slices\<close>

text \<open>
  A slice is well formed in a heap when its length is within its capacity and, unless
  the capacity is zero, it points to an array of the heap that has this capacity. Every
  slice that the program makes is well formed.
\<close>

definition slice_ok :: "string list list \<Rightarrow> slice \<Rightarrow> bool" where
  "slice_ok h s \<longleftrightarrow>
     len s \<le> cap s \<and> (cap s = 0 \<or> (ptr s < length h \<and> length (h ! ptr s) = cap s))"

text \<open>The loop of cloneRepos over a list of values instead of a range of a slice.\<close>

fun clone_vals ::
  "env \<Rightarrow> string list \<Rightarrow> string list \<Rightarrow> string \<Rightarrow> slice \<Rightarrow> string list \<Rightarrow> state
     \<Rightarrow> string list outcome" where
  "clone_vals E [] limit dir repos cloned st = Return cloned st"
| "clone_vals E (x # xs) limit dir repos cloned st =
     (case cloneRepos_body E limit dir x repos st of
        Halt s \<Rightarrow> Exit s
      | Next repos' st' \<Rightarrow> clone_vals E xs limit dir repos' cloned st')"

subsection \<open>Reading a trace\<close>

fun main_clones :: "event list \<Rightarrow> string list list" where
  "main_clones [] = []"
| "main_clones (Exec MainClone argv # tr) = argv # main_clones tr"
| "main_clones (e # tr) = main_clones tr"

fun gh_calls :: "event list \<Rightarrow> string list list" where
  "gh_calls [] = []"
| "gh_calls (Exec GhList argv # tr) = argv # gh_calls tr"
| "gh_calls (e # tr) = gh_calls tr"

fun http_calls :: "event list \<Rightarrow> string list" where
  "http_calls [] = []"
| "http_calls (HttpGet url # tr) = url # http_calls tr"
| "http_calls (e # tr) = http_calls tr"

fun printed :: "event list \<Rightarrow> (int \<times> string) list" where
  "printed [] = []"
| "printed (Printf n repo # tr) = (n, repo) # printed tr"
| "printed (e # tr) = printed tr"

text \<open>
  The events that cloneRepos adds for the accepted repositories \<open>rs\<close> when every main
  clone succeeds, the counter being \<open>n\<close> before.
\<close>

fun blocks :: "string \<Rightarrow> int \<Rightarrow> string list \<Rightarrow> event list" where
  "blocks dir n [] = []"
| "blocks dir n (r # rs) =
     [Printf (n + 1) r, Exec MainClone (main_argv dir r), Exec WikiClone (wiki_argv dir r)]
       @ blocks dir (n + 1) rs"

subsection \<open>Fatal failures\<close>

text \<open>
  The event \<open>e\<close>, coming after the trace \<open>tr\<close>, is a fatal failure when it is the
  listing command or a main clone and the environment answers it with an error.
  \<open>no_fatal E tr new\<close> says that none of the events \<open>new\<close> that follow \<open>tr\<close> is one.
\<close>

definition fails :: "env \<Rightarrow> event list \<Rightarrow> event \<Rightarrow> bool" where
  "fails E tr e =
     (case e of
        Exec site argv \<Rightarrow> (site = GhList \<or> site = MainClone) \<and> isl (exec_output E tr argv)
      | _ \<Rightarrow> False)"

fun no_fatal :: "env \<Rightarrow> event list \<Rightarrow> event list \<Rightarrow> bool" where
  "no_fatal E tr [] = True"
| "no_fatal E tr (e # es) = (\<not> fails E tr e \<and> no_fatal E (tr @ [e]) es)"

text \<open>
  A part of a run, from the state \<open>st\<close> to the outcome \<open>out\<close>, fails fast when it
  returns only without any fatal failure, and exits right after its first fatal failure,
  with nothing but the line of \<^verbatim>\<open>log.Fatal\<close> behind it.
\<close>

definition fail_fast :: "env \<Rightarrow> state \<Rightarrow> 'a outcome \<Rightarrow> bool" where
  "fail_fast E st out =
     (case out of
        Return v st' \<Rightarrow> (\<exists>new. trace st' = trace st @ new \<and> no_fatal E (trace st) new)
      | Exit st' \<Rightarrow>
          (\<exists>pre site argv err.
             trace st' = trace st @ pre @ [Exec site argv, Log (Fatal err)] \<and>
             no_fatal E (trace st) pre \<and> (site = GhList \<or> site = MainClone) \<and>
             exec_output E (trace st @ pre) argv = Inl err)
      | Panic st' \<Rightarrow> False)"

subsection \<open>The tally\<close>

text \<open>
  A part of a run keeps the tally when the counters that it prints are the successors of
  the counter it started with, one after the other, up to the counter it ends with, and
  when its main clones are those of the repositories that it prints, in the same order.
\<close>

definition tally :: "string \<Rightarrow> state \<Rightarrow> 'a outcome \<Rightarrow> bool" where
  "tally dir st out \<longleftrightarrow>
     (\<exists>new. trace (final out) = trace st @ new \<and>
        reponum st \<le> reponum (final out) \<and>
        map fst (printed new) = [reponum st + 1 .. reponum (final out)] \<and>
        main_clones new = map (\<lambda>p. main_argv dir (snd p)) (printed new))"

subsection \<open>The list that a discovery returns\<close>

text \<open>
  \<open>first_fields\<close> follows the words of the specification of owned discovery: the
  first tab-delimited field of each non-empty line. \<open>returned_elems\<close> is the list of
  the elements of the slice that a call returns, if it returns.
\<close>

definition first_fields :: "string list \<Rightarrow> string list" where
  "first_fields strs = map (takeWhile (\<lambda>c. c \<noteq> CHR 0x09)) (filter (\<lambda>l. l \<noteq> []) strs)"

definition returned_elems :: "slice outcome \<Rightarrow> string list option" where
  "returned_elems out =
     (case out of
        Return repos st \<Rightarrow> Some (slice_elems (heap st) repos)
      | Exit st \<Rightarrow> None
      | Panic st \<Rightarrow> None)"

subsection \<open>The discoveries that the flags ask for\<close>

text \<open>
  These two follow the words of the specification of the coordinator: owned discovery is
  called for each account unless \<open>starsonly\<close> is set, starred discovery for each
  account if \<open>stars\<close> or \<open>starsonly\<close> is set. \<open>owned_calls\<close> lists the
  listing commands and \<open>starred_calls\<close> the requests that this makes for the accounts
  \<open>users\<close>. A part of a run \<open>discovers ghs urls\<close> when the listing commands that it
  runs are \<open>ghs\<close> and the requests that it sends are \<open>urls\<close>.
\<close>

definition owned_calls :: "config \<Rightarrow> string list \<Rightarrow> string list list" where
  "owned_calls cfg users =
     (if starsonly cfg then [] else map (\<lambda>u. gh_argv (TrimSpace u) (maxrepo cfg)) users)"

definition starred_calls :: "config \<Rightarrow> string list \<Rightarrow> string list" where
  "starred_calls cfg users =
     (if stars cfg \<or> starsonly cfg
      then map (\<lambda>u. starred_url (TrimSpace u) (maxrepo cfg)) users else [])"

definition discovers :: "string list list \<Rightarrow> string list \<Rightarrow> state \<Rightarrow> 'a outcome \<Rightarrow> bool" where
  "discovers ghs urls st out \<longleftrightarrow>
     (\<exists>new. trace (final out) = trace st @ new \<and> gh_calls new = ghs \<and> http_calls new = urls)"

subsection \<open>The repositories that a run has to process\<close>

text \<open>
  These follow the words of the specification of the discoveries and of the mirror
  driver. \<open>answered E limit tr e\<close> lists what the event \<open>e\<close>, coming after the trace
  \<open>tr\<close>, gives to process: for the listing command of owned discovery, the first fields
  of the non-empty lines of the output that the environment answers; for the request of
  starred discovery, the names of the entries of the body that it answers; in both cases
  those that the filter includes, and none when the answer is an error. The other events
  give nothing. \<open>due\<close> collects this over the events \<open>new\<close> that follow a trace.
  A part of a run \<open>progresses\<close> when the repositories of its progress lines are a
  beginning of what is due for its events, and all of it when it does not end the
  process.
\<close>

definition answered :: "env \<Rightarrow> string list \<Rightarrow> event list \<Rightarrow> event \<Rightarrow> string list" where
  "answered E limit tr e =
     (case e of
        Exec site argv \<Rightarrow>
          (if site = GhList
           then (case exec_output E tr argv of
                   Inl err \<Rightarrow> []
                 | Inr out \<Rightarrow>
                     filter (\<lambda>r. included r limit) (first_fields (Split out (CHR 0x0A))))
           else [])
      | HttpGet url \<Rightarrow>
          (case http_get E tr url of
             GetError err \<Rightarrow> []
           | ReadError err \<Rightarrow> []
           | Body body \<Rightarrow>
               (case Unmarshal E body of
                  Inl err \<Rightarrow> []
                | Inr jsonData \<Rightarrow> filter (\<lambda>r. included r limit) (map FullName jsonData)))
      | Printf n repo \<Rightarrow> []
      | Log line \<Rightarrow> [])"

fun due :: "env \<Rightarrow> string list \<Rightarrow> event list \<Rightarrow> event list \<Rightarrow> string list" where
  "due E limit tr [] = []"
| "due E limit tr (e # es) = answered E limit tr e @ due E limit (tr @ [e]) es"

definition progresses :: "env \<Rightarrow> string list \<Rightarrow> state \<Rightarrow> 'a outcome \<Rightarrow> bool" where
  "progresses E limit st out \<longleftrightarrow>
     (\<exists>new. trace (final out) = trace st @ new \<and>
        (\<exists>k. map snd (printed new) = take k (due E limit (trace st) new)) \<and>
        (exit_status out = 0 \<longrightarrow> map snd (printed new) = due E limit (trace st) new))"

subsection \<open>Joining the pieces of a string\<close>

text \<open>
  \<^verbatim>\<open>strings.Join\<close> with a separator of one byte. main.go does not call it; it
  serves to say what \<open>Split\<close> computes.
\<close>

fun Join :: "string list \<Rightarrow> char \<Rightarrow> string" where
  "Join [] sep = []"
| "Join [p] sep = p"
| "Join (p # q # ps) sep = p @ sep # Join (q # ps) sep"

section \<open>Example environments\<close>

text \<open>
  The listing of the two repositories \<open>a/b\<close> and \<open>c/d\<close> as \<^verbatim>\<open>gh repo list\<close>
  prints it: fields separated by tabs, lines ended by newlines, one empty line at the end.
\<close>

definition demo_gh_output :: string where
  "demo_gh_output =
     ''a/b'' @ [CHR 0x09] @ ''public'' @ [CHR 0x0A] @
     ''c/d'' @ [CHR 0x09] @ ''private'' @ [CHR 0x0A, CHR 0x0A]"

text \<open>
  The body \<^verbatim>\<open>[{"full_name":"x/y"},{"other":"z"},{"full_name":"p/q"}]\<close> and the value
  tree that it denotes.
\<close>

definition quoted :: "string \<Rightarrow> string" where
  "quoted s = CHR 0x22 # s @ [CHR 0x22]"

definition demo_body :: string where
  "demo_body =
     ''[{'' @ quoted ''full_name'' @ '':'' @ quoted ''x/y'' @ ''},{'' @
     quoted ''other'' @ '':'' @ quoted ''z'' @ ''},{'' @
     quoted ''full_name'' @ '':'' @ quoted ''p/q'' @ ''}]''"

definition demo_tree :: json where
  "demo_tree =
     JArray [JObject [(''full_name'', JString ''x/y'')],
             JObject [(''other'', JString ''z'')],
             JObject [(''full_name'', JString ''p/q'')]]"

text \<open>
  In \<open>demo_env\<close> every command succeeds except the wiki clones, which all fail; the
  listing prints \<open>demo_gh_output\<close> and the request answers \<open>demo_body\<close>. In
  \<open>failing_env\<close> no command succeeds and no request gets through. In \<open>second_fails_env\<close>
  the main clone of \<open>c/d\<close> fails.
\<close>

definition demo_env :: env where
  "demo_env =
     \<lparr>exec_output = (\<lambda>tr argv. Inr demo_gh_output),
      exec_run = (\<lambda>tr argv. Some ''exit status 128''),
      http_get = (\<lambda>tr url. Body demo_body),
      json_scan = (\<lambda>s. if s = demo_body then Inr demo_tree else Inl ''invalid character''),
      type_error = (\<lambda>s. ''json: cannot unmarshal object into Go value of type []main.starsData''),
      growslice = (\<lambda>c. 2 * c)\<rparr>"

definition failing_env :: env where
  "failing_env =
     \<lparr>exec_output = (\<lambda>tr argv. Inl ''exit status 1''),
      exec_run = (\<lambda>tr argv. Some ''exit status 128''),
      http_get = (\<lambda>tr url. GetError ''no such host''),
      json_scan = (\<lambda>s. Inl ''unexpected end of JSON input''),
      type_error = (\<lambda>s. ''json: cannot unmarshal object into Go value of type []main.starsData''),
      growslice = (\<lambda>c. 2 * c)\<rparr>"

definition second_fails_env :: env where
  "second_fails_env =
     \<lparr>exec_output = (\<lambda>tr argv. if argv = main_argv ''out'' ''c/d''
                                  then Inl ''exit status 128'' else Inr demo_gh_output),
      exec_run = (\<lambda>tr argv. None),
      http_get = (\<lambda>tr url. Body demo_body),
      json_scan = (\<lambda>s. if s = demo_body then Inr demo_tree else Inl ''invalid character''),
      type_error = (\<lambda>s. ''json: cannot unmarshal object into Go value of type []main.starsData''),
      growslice = (\<lambda>c. 2 * c)\<rparr>"

text \<open>
  A heap with one array of capacity four that holds \<open>a/b\<close> and \<open>c/d\<close>, and the slice
  of its first two elements: an \<^verbatim>\<open>append\<close> to this slice writes in place.
\<close>

definition demo_state :: state where
  "demo_state = \<lparr>reponum = 0, trace = [], heap = [[''a/b'', ''c/d'', [], []]]\<rparr>"

definition demo_slice :: slice where
  "demo_slice = \<lparr>ptr = 0, len = 2, cap = 4\<rparr>"

definition demo_config :: config where
  "demo_config =
     \<lparr>userslist = ''u1, u2'', limitslist = [], output_dir = ''out'',
      stars = True, starsonly = False, maxrepo = ''1000''\<rparr>"

text \<open>
  The trace of the run of \<open>demo_config\<close> with the allow-list \<open>a/b,x/y\<close> in
  \<open>demo_env\<close>.
\<close>

definition demo_trace :: "event list" where
  "demo_trace =
     [Exec GhList (gh_argv ''u1'' ''1000''),
      Printf 1 ''a/b'', Exec MainClone (main_argv ''out'' ''a/b''),
      Exec WikiClone (wiki_argv ''out'' ''a/b''),
      HttpGet (starred_url ''u1'' ''1000''),
      Printf 2 ''x/y'', Exec MainClone (main_argv ''out'' ''x/y''),
      Exec WikiClone (wiki_argv ''out'' ''x/y''),
      Exec GhList (gh_argv ''u2'' ''1000''),
      Printf 3 ''a/b'', Exec MainClone (main_argv ''out'' ''a/b''),
      Exec WikiClone (wiki_argv ''out'' ''a/b''),
      HttpGet (starred_url ''u2'' ''1000''),
      Printf 4 ''x/y'', Exec MainClone (main_argv ''out'' ''x/y''),
      Exec WikiClone (wiki_argv ''out'' ''x/y'')]"

section \<open>Properties of the library functions\<close>

lemma split_from_not_Nil: "split_from cur sep s \<noteq> []"
  by (induction s arbitrary: cur) auto

lemma Split_not_Nil: "Split s sep \<noteq> []"
  by (simp add: Split_def split_from_not_Nil)

lemma hd_split_from: "hd (split_from cur sep s) = cur @ takeWhile (\<lambda>c. c \<noteq> sep) s"
  by (induction s arbitrary: cur) auto

lemma hd_Split: "hd (Split s sep) = takeWhile (\<lambda>c. c \<noteq> sep) s"
  by (simp add: Split_def hd_split_from)

text \<open>
  What \<open>Split\<close> computes: pieces without the separator which, joined with the
  separator, give the string back.
\<close>

lemma Join_Cons: "ps \<noteq> [] \<Longrightarrow> Join (p # ps) sep = p @ sep # Join ps sep"
  by (cases ps) simp_all

lemma Join_split_from: "Join (split_from cur sep s) sep = cur @ s"
  by (induction s arbitrary: cur) (simp_all add: Join_Cons split_from_not_Nil)

lemma split_from_pieces:
  "sep \<notin> set cur \<Longrightarrow> \<forall>p\<in>set (split_from cur sep s). sep \<notin> set p"
proof (induction s arbitrary: cur)
  case Nil
  then show ?case by simp
next
  case (Cons c s)
  show ?case
  proof (cases "c = sep")
    case True
    with Cons.prems Cons.IH [of "[]"] show ?thesis by simp
  next
    case False
    with Cons.prems Cons.IH [of "cur @ [c]"] show ?thesis by simp
  qed
qed

lemma Split_Join: "Join (Split s sep) sep = s \<and> (\<forall>p\<in>set (Split s sep). sep \<notin> set p)"
  using split_from_pieces [of sep "[]" s] by (simp add: Split_def Join_split_from)

section \<open>Unfolding the definitions on examples\<close>

lemmas trim_defs = TrimSpace_def asciiSpace_def space2_def space3_def

lemmas demo_defs = demo_env_def failing_env_def second_fails_env_def demo_state_def demo_slice_def
  demo_gh_output_def demo_body_def demo_tree_def quoted_def demo_config_def

lemmas run_defs = cloneRepos_def cloneRepos_body_def included_def emit_def append_go_def
  slice_elems_def Let_def

lemmas parse_defs = getRepos_def getStars_def Unmarshal_def decode_starsData_slice_def
  decode_elem_def ascii_lower_def gh_argv_def starred_url_def main_argv_def wiki_argv_def
  nil_slice_def init_state_def Split_def returned_elems_def first_fields_def

lemmas main_defs = main_def parse_limit_def

section \<open>The filter\<close>

lemma inSlise_iff: "inSlise el ar \<longleftrightarrow> (\<exists>a\<in>set ar. TrimSpace a = el)"
  by (induction ar) auto

text \<open>
  Claim C3. Every repository identifier is included when the allow-list is empty. With a
  non-empty allow-list, an identifier is included if and only if it is equal to some
  entry of the list after white space has been trimmed from that entry. The comparison
  is equality of strings, so neither a substring nor a pattern matches, and the
  identifier itself is compared as it is, untrimmed.
\<close>

theorem included_iff:
  "included r [] \<and> (list \<noteq> [] \<longrightarrow> included r list = (\<exists>e\<in>set list. TrimSpace e = r))"
  by (simp add: included_def inSlise_iff)

text \<open>
  With the allow-list \<open>x/y\<close>, \<open>a/b\<close> (the latter between spaces): \<open>a/b\<close> is
  included, \<open>a/b\<close> after a space is not, and neither is the substring \<open>a\<close>.
\<close>

theorem included_iff_witness:
  "[''x/y'', '' a/b ''] \<noteq> [] \<and> included ''a/b'' [''x/y'', '' a/b '']
     \<and> \<not> included '' a/b'' [''x/y'', '' a/b '']
     \<and> \<not> included ''a'' [''x/y'', '' a/b '']"
  using included_iff [of "''a/b''" "[''x/y'', '' a/b '']"]
        included_iff [of "'' a/b''" "[''x/y'', '' a/b '']"]
        included_iff [of "''a''" "[''x/y'', '' a/b '']"]
  by (simp add: trim_defs)

section \<open>Slices and the heap\<close>

lemma trace_emit [simp]: "trace (emit e st) = trace st @ [e]"
  by (simp add: emit_def)

lemma reponum_emit [simp]: "reponum (emit e st) = reponum st"
  by (simp add: emit_def)

lemma heap_emit [simp]: "heap (emit e st) = heap st"
  by (simp add: emit_def)

lemma slice_ok_nil [simp]: "slice_ok h nil_slice"
  by (simp add: slice_ok_def nil_slice_def)

lemma slice_elems_nil [simp]: "slice_elems h nil_slice = []"
  by (simp add: slice_elems_def nil_slice_def)

lemma length_slice_elems: "slice_ok h s \<Longrightarrow> length (slice_elems h s) = len s"
  by (auto simp: slice_ok_def slice_elems_def)

lemma nth_slice_elems: "i < len s \<Longrightarrow> slice_elems h s ! i = h ! ptr s ! i"
  by (simp add: slice_elems_def)

text \<open>
  An append gives a well-formed slice with the new element at its end. It leaves every
  other well-formed slice \<open>t\<close> as it is, also when \<open>t\<close> shares the backing array,
  provided \<open>t\<close> is not longer than the slice appended to.
\<close>

lemma append_go_ok:
  assumes "slice_ok h s" and "append_go E h s v = (h', s')"
  shows "slice_ok h' s'" and "slice_elems h' s' = slice_elems h s @ [v]"
proof -
  show "slice_ok h' s'"
    using assms
    by (auto simp: append_go_def slice_ok_def slice_elems_def Let_def split: if_splits)
  show "slice_elems h' s' = slice_elems h s @ [v]"
    using assms
    by (auto simp: append_go_def slice_ok_def slice_elems_def Let_def take_Suc_conv_app_nth
             split: if_splits)
qed

lemma append_go_frame:
  assumes "slice_ok h s" and "append_go E h s v = (h', s')"
    and "slice_ok h t" and "ptr s = ptr t \<longrightarrow> len t \<le> len s"
  shows "slice_ok h' t" and "slice_elems h' t = slice_elems h t"
    and "ptr s' = ptr t \<longrightarrow> len t \<le> len s'"
proof -
  show "slice_ok h' t"
    using assms
    by (auto simp: append_go_def slice_ok_def Let_def nth_append nth_list_update split: if_splits)
  show "slice_elems h' t = slice_elems h t"
    using assms
    by (auto simp: append_go_def slice_ok_def slice_elems_def Let_def nth_append nth_list_update
             split: if_splits)
  show "ptr s' = ptr t \<longrightarrow> len t \<le> len s'"
    using assms
    by (auto simp: append_go_def slice_ok_def Let_def split: if_splits)
qed

section \<open>The loop of cloneRepos\<close>

lemma body_skip:
  "\<not> included x limit \<Longrightarrow> cloneRepos_body E limit dir x cur st = Next cur st"
  by (simp add: cloneRepos_body_def)

lemma body_included:
  "included x limit \<Longrightarrow>
   cloneRepos_body E limit dir x cur st =
     (case exec_output E (trace st @ [Printf (reponum st + 1) x]) (main_argv dir x) of
        Inl err \<Rightarrow>
          Halt (st\<lparr>reponum := reponum st + 1,
                   trace := trace st @ [Printf (reponum st + 1) x,
                              Exec MainClone (main_argv dir x), Log (Fatal err)],
                   heap := fst (append_go E (heap st) cur x)\<rparr>)
      | Inr out \<Rightarrow>
          Next (snd (append_go E (heap st) cur x))
            (st\<lparr>reponum := reponum st + 1,
                trace := trace st @ [Printf (reponum st + 1) x,
                           Exec MainClone (main_argv dir x), Exec WikiClone (wiki_argv dir x)],
                heap := fst (append_go E (heap st) cur x)\<rparr>))"
  by (simp add: cloneRepos_body_def emit_def Let_def split_beta split: sum.splits option.splits)

lemma body_Next_heap:
  assumes "cloneRepos_body E limit dir x cur st = Next cur' st'"
  shows "(cur' = cur \<and> heap st' = heap st) \<or> append_go E (heap st) cur x = (heap st', cur')"
proof (cases "included x limit")
  case False
  with assms show ?thesis by (simp add: body_skip)
next
  case True
  with assms show ?thesis by (auto simp: body_included split: sum.splits)
qed

lemma body_Next:
  assumes "cloneRepos_body E limit dir x cur st = Next cur' st'"
    and "slice_ok (heap st) cur" and "slice_ok (heap st) rng"
    and "ptr cur = ptr rng \<longrightarrow> len rng \<le> len cur"
  shows "slice_ok (heap st') cur'" and "slice_ok (heap st') rng"
    and "slice_elems (heap st') rng = slice_elems (heap st) rng"
    and "ptr cur' = ptr rng \<longrightarrow> len rng \<le> len cur'"
  using body_Next_heap [OF assms(1)] assms(2-4) append_go_ok(1) [of "heap st" cur E x "heap st'" cur']
    append_go_frame [of "heap st" cur E x "heap st'" cur' rng]
  by auto

text \<open>
  The range loop reads from the heap what the slice held at loop entry: it is the loop
  over the list of these values.
\<close>

lemma range_vals:
  assumes "slice_ok (heap st) rng" and "slice_ok (heap st) cur"
    and "ptr cur = ptr rng \<longrightarrow> len rng \<le> len cur" and "\<forall>i\<in>set is. i < len rng"
  shows "cloneRepos_range E rng is limit dir cur cloned st =
         clone_vals E (map (\<lambda>i. slice_elems (heap st) rng ! i) is) limit dir cur cloned st"
  using assms
proof (induction "is" arbitrary: cur st)
  case Nil
  then show ?case by simp
next
  case (Cons i "is")
  have rd: "heap st ! ptr rng ! i = slice_elems (heap st) rng ! i"
    using Cons.prems(4) by (simp add: nth_slice_elems)
  show ?case
  proof (cases "cloneRepos_body E limit dir (slice_elems (heap st) rng ! i) cur st")
    case (Halt s)
    then show ?thesis by (simp add: rd)
  next
    case (Next cur' st')
    note b = body_Next [OF Next Cons.prems(2) Cons.prems(1) Cons.prems(3)]
    have "cloneRepos_range E rng is limit dir cur' cloned st' =
          clone_vals E (map (\<lambda>i. slice_elems (heap st') rng ! i) is) limit dir cur' cloned st'"
      using Cons.IH [OF b(2) b(1) b(4)] Cons.prems(4) by simp
    with Next b(3) show ?thesis by (simp add: rd)
  qed
qed

lemma cloneRepos_vals:
  assumes "slice_ok (heap st) repos"
  shows "cloneRepos E repos limit dir st =
         clone_vals E (slice_elems (heap st) repos) limit dir repos [] st"
proof -
  have "map (\<lambda>i. slice_elems (heap st) repos ! i) [0 ..< len repos] = slice_elems (heap st) repos"
    using length_slice_elems [OF assms] map_nth [of "slice_elems (heap st) repos"] by simp
  with range_vals [OF assms assms, of "[0 ..< len repos]" E limit dir "[]"] show ?thesis
    by (simp add: cloneRepos_def)
qed

lemma clone_vals_frame:
  assumes "clone_vals E xs limit dir cur cloned st = Return c st'"
    and "slice_ok (heap st) cur" and "slice_ok (heap st) rng"
    and "ptr cur = ptr rng \<longrightarrow> len rng \<le> len cur"
  shows "slice_ok (heap st') rng \<and> slice_elems (heap st') rng = slice_elems (heap st) rng"
  using assms
proof (induction xs arbitrary: cur st)
  case Nil
  then show ?case by simp
next
  case (Cons x xs)
  show ?case
  proof (cases "cloneRepos_body E limit dir x cur st")
    case (Halt s)
    with Cons.prems(1) show ?thesis by simp
  next
    case (Next cur' st1)
    note b = body_Next [OF Next Cons.prems(2) Cons.prems(3) Cons.prems(4)]
    from Next Cons.prems(1) have "clone_vals E xs limit dir cur' cloned st1 = Return c st'"
      by simp
    from Cons.IH [OF this b(1) b(2) b(4)] b(3) show ?thesis by simp
  qed
qed

lemma cloneRepos_frame:
  assumes "cloneRepos E repos limit dir st = Return c st'" and "slice_ok (heap st) repos"
  shows "slice_ok (heap st') repos \<and> slice_elems (heap st') repos = slice_elems (heap st) repos"
  using clone_vals_frame [of E "slice_elems (heap st) repos" limit dir repos "[]" st c st' repos] assms
  by (simp add: cloneRepos_vals)

section \<open>Traces\<close>

lemma main_clones_append [simp]: "main_clones (a @ b) = main_clones a @ main_clones b"
  by (induction a rule: main_clones.induct) auto

lemma gh_calls_append [simp]: "gh_calls (a @ b) = gh_calls a @ gh_calls b"
  by (induction a rule: gh_calls.induct) auto

lemma http_calls_append [simp]: "http_calls (a @ b) = http_calls a @ http_calls b"
  by (induction a rule: http_calls.induct) auto

lemma printed_append [simp]: "printed (a @ b) = printed a @ printed b"
  by (induction a rule: printed.induct) auto

lemma main_clones_blocks [simp]: "main_clones (blocks dir n rs) = map (main_argv dir) rs"
  by (induction rs arbitrary: n) auto

lemma gh_calls_blocks [simp]: "gh_calls (blocks dir n rs) = []"
  by (induction rs arbitrary: n) auto

lemma http_calls_blocks [simp]: "http_calls (blocks dir n rs) = []"
  by (induction rs arbitrary: n) auto

lemma printed_blocks:
  "map fst (printed (blocks dir n rs)) = [n + 1 .. n + int (length rs)] \<and>
   map snd (printed (blocks dir n rs)) = rs"
proof (induction rs arbitrary: n)
  case Nil
  show ?case by simp
next
  case (Cons r rs)
  have "map fst (printed (blocks dir n (r # rs))) =
        (n + 1) # map fst (printed (blocks dir (n + 1) rs))"
    by simp
  also have "\<dots> = (n + 1) # [n + 1 + 1 .. n + 1 + int (length rs)]"
    using Cons [of "n + 1"] by simp
  also have "\<dots> = [n + 1 .. n + 1 + int (length rs)]"
    by (rule upto_rec1 [symmetric]) simp
  also have "n + 1 + int (length rs) = n + int (length (r # rs))"
    by simp
  finally have "map fst (printed (blocks dir n (r # rs))) = [n + 1 .. n + int (length (r # rs))]" .
  moreover have "map snd (printed (blocks dir n (r # rs))) = r # rs"
    using Cons [of "n + 1"] by simp
  ultimately show ?case by blast
qed

lemma main_clones_printed_blocks:
  "map (\<lambda>p. main_argv dir (snd p)) (printed (blocks dir n rs)) = map (main_argv dir) rs"
proof -
  have "map (\<lambda>p. main_argv dir (snd p)) (printed (blocks dir n rs)) =
        map (main_argv dir) (map snd (printed (blocks dir n rs)))"
    by simp
  with printed_blocks [of dir n rs] show ?thesis by simp
qed

section \<open>What the loop of cloneRepos leaves in the trace\<close>

lemma clone_vals_Return:
  "clone_vals E xs limit dir cur cloned st = Return c st' \<Longrightarrow>
   c = cloned \<and>
   reponum st' = reponum st + int (length (filter (\<lambda>x. included x limit) xs)) \<and>
   trace st' = trace st @ blocks dir (reponum st) (filter (\<lambda>x. included x limit) xs)"
proof (induction xs arbitrary: cur st)
  case Nil
  then show ?case by simp
next
  case (Cons x xs)
  show ?case
  proof (cases "included x limit")
    case False
    with Cons show ?thesis by (simp add: body_skip)
  next
    case True
    show ?thesis
    proof (cases "exec_output E (trace st @ [Printf (reponum st + 1) x]) (main_argv dir x)")
      case (Inl err)
      with True Cons.prems show ?thesis by (simp add: body_included)
    next
      case (Inr out)
      with True Cons.prems Cons.IH show ?thesis by (fastforce simp: body_included)
    qed
  qed
qed

lemma clone_vals_Exit:
  "clone_vals E xs limit dir cur cloned st = Exit st' \<Longrightarrow>
   \<exists>pre r post err.
     filter (\<lambda>x. included x limit) xs = pre @ r # post \<and>
     reponum st' = reponum st + int (length pre) + 1 \<and>
     trace st' = trace st @ blocks dir (reponum st) pre @
       [Printf (reponum st + int (length pre) + 1) r, Exec MainClone (main_argv dir r),
        Log (Fatal err)] \<and>
     exec_output E (trace st @ blocks dir (reponum st) pre @
       [Printf (reponum st + int (length pre) + 1) r]) (main_argv dir r) = Inl err"
proof (induction xs arbitrary: cur st)
  case Nil
  then show ?case by simp
next
  case (Cons x xs)
  show ?case
  proof (cases "included x limit")
    case False
    with Cons show ?thesis by (simp add: body_skip)
  next
    case True
    show ?thesis
    proof (cases "exec_output E (trace st @ [Printf (reponum st + 1) x]) (main_argv dir x)")
      case (Inl err)
      with True Cons.prems have
        "filter (\<lambda>x. included x limit) (x # xs) = [] @ x # filter (\<lambda>x. included x limit) xs"
        "reponum st' = reponum st + int (length ([]::string list)) + 1"
        "trace st' = trace st @ blocks dir (reponum st) [] @
           [Printf (reponum st + int (length ([]::string list)) + 1) x,
            Exec MainClone (main_argv dir x), Log (Fatal err)]"
        "exec_output E (trace st @ blocks dir (reponum st) [] @
           [Printf (reponum st + int (length ([]::string list)) + 1) x]) (main_argv dir x) = Inl err"
        by (auto simp: body_included)
      then show ?thesis by blast
    next
      case (Inr out)
      define st1 where "st1 = st\<lparr>reponum := reponum st + 1,
                trace := trace st @ [Printf (reponum st + 1) x,
                           Exec MainClone (main_argv dir x), Exec WikiClone (wiki_argv dir x)],
                heap := fst (append_go E (heap st) cur x)\<rparr>"
      from Inr True Cons.prems
      have "clone_vals E xs limit dir (snd (append_go E (heap st) cur x)) cloned st1 = Exit st'"
        by (simp add: body_included st1_def)
      from Cons.IH [OF this] obtain pre r post err where
        f: "filter (\<lambda>x. included x limit) xs = pre @ r # post" and
        n: "reponum st' = reponum st1 + int (length pre) + 1" and
        t: "trace st' = trace st1 @ blocks dir (reponum st1) pre @
              [Printf (reponum st1 + int (length pre) + 1) r, Exec MainClone (main_argv dir r),
               Log (Fatal err)]" and
        e: "exec_output E (trace st1 @ blocks dir (reponum st1) pre @
              [Printf (reponum st1 + int (length pre) + 1) r]) (main_argv dir r) = Inl err"
        by blast
      have "filter (\<lambda>x. included x limit) (x # xs) = (x # pre) @ r # post"
        using True f by simp
      moreover have "reponum st' = reponum st + int (length (x # pre)) + 1"
        using n by (simp add: st1_def)
      moreover have "trace st' = trace st @ blocks dir (reponum st) (x # pre) @
              [Printf (reponum st + int (length (x # pre)) + 1) r, Exec MainClone (main_argv dir r),
               Log (Fatal err)]"
        using t by (simp add: st1_def add.assoc)
      moreover have "exec_output E (trace st @ blocks dir (reponum st) (x # pre) @
              [Printf (reponum st + int (length (x # pre)) + 1) r]) (main_argv dir r) = Inl err"
        using e by (simp add: st1_def add.assoc)
      ultimately show ?thesis by blast
    qed
  qed
qed

lemma clone_vals_no_Panic: "clone_vals E xs limit dir cur cloned st \<noteq> Panic s"
proof (induction xs arbitrary: cur st)
  case Nil
  then show ?case by simp
next
  case (Cons x xs)
  then show ?case
    by (cases "included x limit") (auto simp: body_skip body_included split: sum.splits)
qed

section \<open>The range of the loop\<close>

text \<open>
  Claim C10, amended. The loop of cloneRepos ranges over the elements that the slice had
  at loop entry: the appends of the body, which may write into the backing array that is
  being read, add no iteration and change no element that is still to be visited. So the
  main clones of a call that returns are exactly those of the accepted elements of the
  original list, one for each accepted position and in the order of the list. In a call
  that a failed main clone ends, they are those of the accepted elements up to and
  including the one whose clone failed.
\<close>

theorem cloneRepos_ranges_over_original:
  assumes "slice_ok (heap st) repos"
  shows "case cloneRepos E repos limit dir st of
           Return cloned st' \<Rightarrow>
             main_clones (trace st') = main_clones (trace st) @
               map (main_argv dir) (filter (\<lambda>r. included r limit) (slice_elems (heap st) repos))
         | Exit st' \<Rightarrow>
             (\<exists>pre r post.
                filter (\<lambda>r. included r limit) (slice_elems (heap st) repos) = pre @ r # post \<and>
                main_clones (trace st') = main_clones (trace st) @ map (main_argv dir) (pre @ [r]))
         | Panic st' \<Rightarrow> False"
proof (cases "clone_vals E (slice_elems (heap st) repos) limit dir repos [] st")
  case (Return c st')
  with clone_vals_Return [OF Return] show ?thesis
    by (simp add: cloneRepos_vals [OF assms])
next
  case (Exit st')
  from clone_vals_Exit [OF Exit] obtain pre r post err where
    "filter (\<lambda>x. included x limit) (slice_elems (heap st) repos) = pre @ r # post"
    "trace st' = trace st @ blocks dir (reponum st) pre @
       [Printf (reponum st + int (length pre) + 1) r, Exec MainClone (main_argv dir r),
        Log (Fatal err)]"
    by blast
  then have "filter (\<lambda>r. included r limit) (slice_elems (heap st) repos) = pre @ r # post \<and>
                main_clones (trace st') = main_clones (trace st) @ map (main_argv dir) (pre @ [r])"
    by simp
  with Exit show ?thesis
    by (auto simp: cloneRepos_vals [OF assms])
next
  case (Panic s)
  with clone_vals_no_Panic show ?thesis by blast
qed

text \<open>
  The slice \<open>a/b\<close>, \<open>c/d\<close> in an array of capacity four: the two appends of the
  body write \<open>a/b\<close> and \<open>c/d\<close> behind them into the same array, and the loop stops
  after the two original elements.
\<close>

theorem cloneRepos_ranges_over_original_witness:
  "slice_ok (heap demo_state) demo_slice \<and>
   main_clones (trace (final (cloneRepos demo_env demo_slice [] ''out'' demo_state))) =
     [main_argv ''out'' ''a/b'', main_argv ''out'' ''c/d'']"
  using cloneRepos_ranges_over_original
          [where st = demo_state and repos = demo_slice and E = demo_env and limit = "[]" and dir = "''out''"]
  by (simp add: demo_defs run_defs slice_ok_def upt_rec)

text \<open>
  Claim C10 as it is stated fails in two ways. When the main clone of \<open>a/b\<close> fails,
  the call runs one main clone although the filter accepts both elements of the list.
  When the list holds \<open>a/b\<close> twice, the repository is processed twice.
\<close>

theorem cloneRepos_count_counterexample:
  "slice_elems (heap demo_state) demo_slice = [''a/b'', ''c/d''] \<and>
   included ''a/b'' [] \<and> included ''c/d'' [] \<and>
   main_clones (trace (final (cloneRepos failing_env demo_slice [] ''out'' demo_state))) =
     [main_argv ''out'' ''a/b''] \<and>
   main_clones (trace (final (cloneRepos demo_env demo_slice [] ''out''
       (demo_state\<lparr>heap := [[''a/b'', ''a/b'', [], []]]\<rparr>)))) =
     [main_argv ''out'' ''a/b'', main_argv ''out'' ''a/b'']"
  by (simp add: demo_defs run_defs upt_rec)

section \<open>The result of cloneRepos\<close>

text \<open>The result variable is never assigned: whatever the input, a call that returns, returns nil.\<close>

lemma cloneRepos_returns_nil:
  "slice_ok (heap st) repos \<Longrightarrow> cloneRepos E repos limit dir st = Return cloned st' \<Longrightarrow> cloned = []"
  by (auto simp: cloneRepos_vals dest: clone_vals_Return)

text \<open>
  Claim C2, at the input of the claim: the repositories \<open>a/b\<close> and \<open>c/d\<close> with the
  allow-list \<open>a/b\<close>. The call prints the progress line of \<open>a/b\<close> only and runs one
  main clone and one wiki clone, both of \<open>a/b\<close>. The list that it returns is empty
  all the same: the identifier went into the array of \<open>repos\<close> (third element of the
  heap's array below), not into \<open>cloned\<close>.
\<close>

theorem cloneRepos_returns_nil_at_example:
  "cloneRepos demo_env demo_slice [''a/b''] ''out'' demo_state =
     Return []
       \<lparr>reponum = 1,
        trace = [Printf 1 ''a/b'', Exec MainClone (main_argv ''out'' ''a/b''),
                 Exec WikiClone (wiki_argv ''out'' ''a/b'')],
        heap = [[''a/b'', ''c/d'', ''a/b'', []]]\<rparr>"
  by (simp add: demo_defs run_defs trim_defs upt_rec)

section \<open>Owned discovery\<close>

lemma getRepos_parse_Return:
  assumes "slice_ok (heap st) repos"
  shows "\<exists>repos' st'. getRepos_parse E strs repos st = Return repos' st' \<and>
           slice_ok (heap st') repos' \<and>
           slice_elems (heap st') repos' = slice_elems (heap st) repos @ first_fields strs \<and>
           trace st' = trace st \<and> reponum st' = reponum st"
  using assms
proof (induction strs arbitrary: repos st)
  case Nil
  then show ?case by (simp add: first_fields_def)
next
  case (Cons l strs)
  show ?case
  proof (cases "l = []")
    case True
    with Cons show ?thesis by (simp add: first_fields_def)
  next
    case False
    obtain w ws where sp: "Split l (CHR 0x09) = w # ws"
      using Split_not_Nil [of l "CHR 0x09"] by (cases "Split l (CHR 0x09)") auto
    then have w: "w = takeWhile (\<lambda>c. c \<noteq> CHR 0x09) l"
      using hd_Split [of l "CHR 0x09"] by simp
    obtain h c where ap: "append_go E (heap st) repos w = (h, c)"
      by (cases "append_go E (heap st) repos w")
    note ok = append_go_ok [OF Cons.prems ap]
    have "slice_ok (heap (st\<lparr>heap := h\<rparr>)) c" using ok(1) by simp
    from Cons.IH [OF this, of ] obtain repos' st' where
      "getRepos_parse E strs c (st\<lparr>heap := h\<rparr>) = Return repos' st'"
      "slice_ok (heap st') repos'"
      "slice_elems (heap st') repos' = slice_elems h c @ first_fields strs"
      "trace st' = trace st" "reponum st' = reponum st"
      by auto
    with False sp ap ok(2) w show ?thesis
      by (simp add: first_fields_def)
  qed
qed

lemma getRepos_gh_error:
  "exec_output E (trace st) (gh_argv user mx) = Inl err \<Longrightarrow>
   getRepos E dir user mx limit st =
     Exit (emit (Log (Fatal err)) (emit (Exec GhList (gh_argv user mx)) st))"
  by (simp add: getRepos_def)

lemma getRepos_listed:
  assumes "exec_output E (trace st) (gh_argv user mx) = Inr out"
  obtains repos st2 where
    "slice_ok (heap st2) repos"
    "slice_elems (heap st2) repos = first_fields (Split out (CHR 0x0A))"
    "trace st2 = trace st @ [Exec GhList (gh_argv user mx)]"
    "reponum st2 = reponum st"
    "getRepos E dir user mx limit st =
       (case clone_vals E (first_fields (Split out (CHR 0x0A))) limit dir repos [] st2 of
          Return cloned st3 \<Rightarrow> Return repos st3
        | Exit s \<Rightarrow> Exit s
        | Panic s \<Rightarrow> Panic s)"
proof -
  obtain repos st2 where
    p: "getRepos_parse E (Split out (CHR 0x0A)) nil_slice
          (emit (Exec GhList (gh_argv user mx)) st) = Return repos st2"
    and ok: "slice_ok (heap st2) repos"
    and el: "slice_elems (heap st2) repos = first_fields (Split out (CHR 0x0A))"
    and tr: "trace st2 = trace st @ [Exec GhList (gh_argv user mx)]"
    and n: "reponum st2 = reponum st"
    using getRepos_parse_Return
            [of "emit (Exec GhList (gh_argv user mx)) st" nil_slice E "Split out (CHR 0x0A)"]
    by auto
  have "getRepos E dir user mx limit st =
       (case clone_vals E (first_fields (Split out (CHR 0x0A))) limit dir repos [] st2 of
          Return cloned st3 \<Rightarrow> Return repos st3
        | Exit s \<Rightarrow> Exit s
        | Panic s \<Rightarrow> Panic s)"
    using assms p el by (simp add: getRepos_def cloneRepos_vals [OF ok])
  with ok el tr n that show thesis by blast
qed

text \<open>
  Claim C4. From the output of the listing command, cut into lines at the newlines, the
  loop of getRepos keeps the first tab-delimited field of each non-empty line, in order,
  and nothing for an empty line. This holds for the slice that the loop builds, and for
  the slice that getRepos returns after cloneRepos has run.
\<close>

theorem getRepos_keeps_first_fields:
  "(\<exists>repos st'. getRepos_parse E (Split out (CHR 0x0A)) nil_slice st = Return repos st' \<and>
      slice_elems (heap st') repos = first_fields (Split out (CHR 0x0A))) \<and>
   (exec_output E (trace st) (gh_argv user mx) = Inr out \<longrightarrow>
    getRepos E dir user mx limit st = Return repos' st'' \<longrightarrow>
      slice_elems (heap st'') repos' = first_fields (Split out (CHR 0x0A)))"
proof (intro conjI impI)
  show "\<exists>repos st'. getRepos_parse E (Split out (CHR 0x0A)) nil_slice st = Return repos st' \<and>
      slice_elems (heap st') repos = first_fields (Split out (CHR 0x0A))"
    using getRepos_parse_Return [of st nil_slice E "Split out (CHR 0x0A)"] by auto
next
  assume ex: "exec_output E (trace st) (gh_argv user mx) = Inr out"
    and ret: "getRepos E dir user mx limit st = Return repos' st''"
  from ex obtain repos st2 where
    ok: "slice_ok (heap st2) repos" and
    el: "slice_elems (heap st2) repos = first_fields (Split out (CHR 0x0A))" and
    g: "getRepos E dir user mx limit st =
       (case clone_vals E (first_fields (Split out (CHR 0x0A))) limit dir repos [] st2 of
          Return cloned st3 \<Rightarrow> Return repos st3
        | Exit s \<Rightarrow> Exit s
        | Panic s \<Rightarrow> Panic s)"
    by (rule getRepos_listed [where limit = limit and dir = dir])
  from g ret obtain c where
    cv: "clone_vals E (first_fields (Split out (CHR 0x0A))) limit dir repos [] st2 = Return c st''"
    and r: "repos' = repos"
    by (auto split: outcome.splits)
  from clone_vals_frame [OF cv ok ok] el r
  show "slice_elems (heap st'') repos' = first_fields (Split out (CHR 0x0A))" by simp
qed

text \<open>
  The output \<open>a/b\<close>, tab, \<open>public\<close>, newline, \<open>c/d\<close>, tab, \<open>private\<close>, two
  newlines is parsed to \<open>a/b\<close>, \<open>c/d\<close>.
\<close>

theorem getRepos_keeps_first_fields_witness:
  "exec_output demo_env (trace init_state) (gh_argv ''u1'' ''1000'') = Inr demo_gh_output \<and>
   returned_elems (getRepos demo_env ''out'' ''u1'' ''1000'' [] init_state) = Some [''a/b'', ''c/d''] \<and>
   first_fields (Split demo_gh_output (CHR 0x0A)) = [''a/b'', ''c/d'']"
  using getRepos_keeps_first_fields
          [where E = demo_env and out = demo_gh_output and st = init_state and user = "''u1''"
             and mx = "''1000''" and dir = "''out''" and limit = "[]"]
  by (simp add: demo_defs run_defs parse_defs upt_rec)

section \<open>Starred discovery\<close>

lemma decode_object_no_key:
  "\<forall>(k, v)\<in>set kvs. map ascii_lower k \<noteq> ''full_name'' \<Longrightarrow> decode_object kvs d = Inr d"
  by (induction kvs arbitrary: d) auto

lemma decode_array_length:
  "decode_array js = Inr vs \<Longrightarrow>
   length vs = length js \<and> (\<forall>i<length js. decode_elem (js ! i) = Inr (vs ! i))"
proof (induction js arbitrary: vs)
  case Nil
  then show ?case by simp
next
  case (Cons j js)
  then obtain v vs' where "decode_elem j = Inr v" "decode_array js = Inr vs'" "vs = v # vs'"
    by (auto split: sum.splits)
  with Cons.IH [of vs'] show ?case
    by (auto simp: nth_Cons split: nat.splits)
qed

lemma getStars_collect_elems:
  assumes "slice_ok (heap st) repos" and "getStars_collect E jsonData repos st = (repos', st')"
  shows "slice_ok (heap st') repos' \<and>
         slice_elems (heap st') repos' = slice_elems (heap st) repos @ map FullName jsonData \<and>
         trace st' = trace st \<and> reponum st' = reponum st"
  using assms
proof (induction jsonData arbitrary: repos st)
  case Nil
  then show ?case by simp
next
  case (Cons d jsonData)
  obtain h c where ap: "append_go E (heap st) repos (FullName d) = (h, c)"
    by (cases "append_go E (heap st) repos (FullName d)")
  note ok = append_go_ok [OF Cons.prems(1) ap]
  have "slice_ok (heap (st\<lparr>heap := h\<rparr>)) c" using ok(1) by simp
  moreover have "getStars_collect E jsonData c (st\<lparr>heap := h\<rparr>) = (repos', st')"
    using Cons.prems(2) ap by simp
  ultimately show ?case
    using Cons.IH [of "st\<lparr>heap := h\<rparr>" c] ok(2) by simp
qed

lemma getStars_parsed:
  assumes "http_get E (trace st) (starred_url user mx) = Body body"
    and "Unmarshal E body = Inr jsonData"
  obtains repos st2 where
    "slice_ok (heap st2) repos"
    "slice_elems (heap st2) repos = map FullName jsonData"
    "trace st2 = trace st @ [HttpGet (starred_url user mx)]"
    "reponum st2 = reponum st"
    "getStars E dir user mx limit st =
       (case clone_vals E (map FullName jsonData) limit dir repos [] st2 of
          Return cloned st3 \<Rightarrow> Return repos st3
        | Exit s \<Rightarrow> Exit s
        | Panic s \<Rightarrow> Panic s)"
proof -
  obtain repos st2 where
    c: "getStars_collect E jsonData nil_slice (emit (HttpGet (starred_url user mx)) st) = (repos, st2)"
    by (cases "getStars_collect E jsonData nil_slice (emit (HttpGet (starred_url user mx)) st)")
  from getStars_collect_elems [OF _ c]
  have ok: "slice_ok (heap st2) repos"
    and el: "slice_elems (heap st2) repos = map FullName jsonData"
    and tr: "trace st2 = trace st @ [HttpGet (starred_url user mx)]"
    and n: "reponum st2 = reponum st"
    by simp_all
  have "getStars E dir user mx limit st =
       (case clone_vals E (map FullName jsonData) limit dir repos [] st2 of
          Return cloned st3 \<Rightarrow> Return repos st3
        | Exit s \<Rightarrow> Exit s
        | Panic s \<Rightarrow> Panic s)"
    using assms c el by (simp add: getStars_def cloneRepos_vals [OF ok])
  with ok el tr n that show thesis by blast
qed

text \<open>
  Claim C1, amended. Starred discovery skips no entry of the JSON array and raises no
  error for an entry without \<open>full_name\<close>: when the body is an array of values that
  can be stored, the list that getStars returns has one identifier for each entry, in
  order, and at the place of an object that has no key \<open>full_name\<close> (in any case of
  letters) it has the empty identifier.
\<close>

theorem getStars_keeps_every_entry:
  assumes "http_get E (trace st) (starred_url user mx) = Body body"
    and "json_scan E body = Inr (JArray js)"
    and "decode_array js = Inr jsonData"
    and "getStars E dir user mx limit st = Return repos st'"
  shows "slice_elems (heap st') repos = map FullName jsonData \<and>
         length (slice_elems (heap st') repos) = length js \<and>
         (\<forall>i<length js. \<forall>kvs.
            js ! i = JObject kvs \<and> (\<forall>(k, v)\<in>set kvs. map ascii_lower k \<noteq> ''full_name'')
              \<longrightarrow> slice_elems (heap st') repos ! i = [])"
proof -
  have um: "Unmarshal E body = Inr jsonData"
    using assms(2,3) by (simp add: Unmarshal_def decode_starsData_slice_def)
  from assms(1) um obtain r st2 where
    ok: "slice_ok (heap st2) r" and
    el: "slice_elems (heap st2) r = map FullName jsonData" and
    g: "getStars E dir user mx limit st =
       (case clone_vals E (map FullName jsonData) limit dir r [] st2 of
          Return cloned st3 \<Rightarrow> Return r st3
        | Exit s \<Rightarrow> Exit s
        | Panic s \<Rightarrow> Panic s)"
    by (rule getStars_parsed [where limit = limit and dir = dir])
  from g assms(4) obtain c where
    cv: "clone_vals E (map FullName jsonData) limit dir r [] st2 = Return c st'"
    and r: "repos = r"
    by (auto split: outcome.splits)
  from clone_vals_frame [OF cv ok ok] el r
  have 1: "slice_elems (heap st') repos = map FullName jsonData" by simp
  note d = decode_array_length [OF assms(3)]
  have 3: "slice_elems (heap st') repos ! i = []"
    if "i < length js" "js ! i = JObject kvs"
       "\<forall>(k, v)\<in>set kvs. map ascii_lower k \<noteq> ''full_name''" for i kvs
  proof -
    from d that(1) have "decode_elem (js ! i) = Inr (jsonData ! i)" by simp
    with that(2) decode_object_no_key [OF that(3), of "\<lparr>FullName = []\<rparr>"]
    have "jsonData ! i = \<lparr>FullName = []\<rparr>" by (simp add: decode_elem_def)
    with 1 d that(1) show ?thesis by simp
  qed
  from 1 d 3 show ?thesis by auto
qed

text \<open>
  For the body of the claim the list is \<open>x/y\<close>, the empty identifier, \<open>p/q\<close>.
\<close>

theorem getStars_keeps_every_entry_witness:
  "http_get demo_env (trace init_state) (starred_url ''u1'' ''1000'') = Body demo_body \<and>
   json_scan demo_env demo_body = Inr demo_tree \<and>
   decode_array [JObject [(''full_name'', JString ''x/y'')], JObject [(''other'', JString ''z'')],
                 JObject [(''full_name'', JString ''p/q'')]] =
     Inr [\<lparr>FullName = ''x/y''\<rparr>, \<lparr>FullName = []\<rparr>, \<lparr>FullName = ''p/q''\<rparr>] \<and>
   returned_elems (getStars demo_env ''out'' ''u1'' ''1000'' [''x/y'', ''p/q''] init_state) =
     Some [''x/y'', [], ''p/q'']"
  using getStars_keeps_every_entry
          [where E = demo_env and st = init_state and user = "''u1''" and mx = "''1000''"
             and body = demo_body and dir = "''out''" and limit = "[''x/y'', ''p/q'']"
             and js = "[JObject [(''full_name'', JString ''x/y'')], JObject [(''other'', JString ''z'')],
                        JObject [(''full_name'', JString ''p/q'')]]"
             and jsonData = "[\<lparr>FullName = ''x/y''\<rparr>, \<lparr>FullName = []\<rparr>, \<lparr>FullName = ''p/q''\<rparr>]"]
  by (simp add: demo_defs run_defs parse_defs trim_defs upt_rec)

text \<open>
  Claim C1 as it is stated fails at its own example: the list is not \<open>x/y\<close>,
  \<open>p/q\<close>, and with an empty allow-list the empty identifier is cloned like the others.
\<close>

theorem getStars_skips_nothing_counterexample:
  "returned_elems (getStars demo_env ''out'' ''u1'' ''1000'' [] init_state) =
     Some [''x/y'', [], ''p/q''] \<and>
   returned_elems (getStars demo_env ''out'' ''u1'' ''1000'' [] init_state) \<noteq>
     Some [''x/y'', ''p/q''] \<and>
   main_clones (trace (final (getStars demo_env ''out'' ''u1'' ''1000'' [] init_state))) =
     [main_argv ''out'' ''x/y'', main_argv ''out'' [], main_argv ''out'' ''p/q'']"
  by (simp add: demo_defs run_defs parse_defs upt_rec)

text \<open>
  Claim C7. When the request fails, when the body cannot be read and when the body
  cannot be unmarshalled, getStars writes one line to the log (with the account and the
  error, with the error, with the error and the body), runs no command, and returns the
  nil slice. The loop of main then goes on with the remaining accounts: whenever getStars
  returns, the accounts that are left are processed from the state that it returned.
\<close>

theorem getStars_recovers:
  "(http_get E (trace st) (starred_url user mx) = GetError err \<longrightarrow>
      getStars E dir user mx limit st =
        Return nil_slice (st\<lparr>trace := trace st @
          [HttpGet (starred_url user mx), Log (CantGetStarred user err)]\<rparr>)) \<and>
   (http_get E (trace st) (starred_url user mx) = ReadError err \<longrightarrow>
      getStars E dir user mx limit st =
        Return nil_slice (st\<lparr>trace := trace st @
          [HttpGet (starred_url user mx), Log (CantReadBody err)]\<rparr>)) \<and>
   (http_get E (trace st) (starred_url user mx) = Body body \<and> Unmarshal E body = Inl err \<longrightarrow>
      getStars E dir user mx limit st =
        Return nil_slice (st\<lparr>trace := trace st @
          [HttpGet (starred_url user mx), Log (CantParseJson err body)]\<rparr>)) \<and>
   ((if \<not> starsonly cfg
     then getRepos E (output_dir cfg) (TrimSpace u) (maxrepo cfg) limit sa
     else Return nil_slice sa) = Return ra sb \<and>
    (stars cfg \<or> starsonly cfg) \<and>
    getStars E (output_dir cfg) (TrimSpace u) (maxrepo cfg) limit sb = Return rb sc \<longrightarrow>
      main_users E cfg limit (u # us) sa = main_users E cfg limit us sc)"
  by (simp add: getStars_def emit_def)

text \<open>
  The three failures, one by one; and with \<open>starsonly\<close> and no request getting
  through, both accounts are tried and the run returns.
\<close>

theorem getStars_recovers_witness:
  "http_get failing_env (trace init_state) (starred_url ''u1'' ''1000'') = GetError ''no such host'' \<and>
   getStars failing_env ''out'' ''u1'' ''1000'' [] init_state =
     Return nil_slice (init_state\<lparr>trace :=
       [HttpGet (starred_url ''u1'' ''1000''), Log (CantGetStarred ''u1'' ''no such host'')]\<rparr>) \<and>
   http_get (failing_env\<lparr>http_get := \<lambda>tr url. ReadError ''unexpected EOF''\<rparr>) (trace init_state)
     (starred_url ''u1'' ''1000'') = ReadError ''unexpected EOF'' \<and>
   getStars (failing_env\<lparr>http_get := \<lambda>tr url. ReadError ''unexpected EOF''\<rparr>)
       ''out'' ''u1'' ''1000'' [] init_state =
     Return nil_slice (init_state\<lparr>trace :=
       [HttpGet (starred_url ''u1'' ''1000''), Log (CantReadBody ''unexpected EOF'')]\<rparr>) \<and>
   http_get (failing_env\<lparr>http_get := \<lambda>tr url. Body ''Not Found''\<rparr>) (trace init_state)
     (starred_url ''u1'' ''1000'') = Body ''Not Found'' \<and>
   Unmarshal (failing_env\<lparr>http_get := \<lambda>tr url. Body ''Not Found''\<rparr>) ''Not Found'' =
     Inl ''unexpected end of JSON input'' \<and>
   getStars (failing_env\<lparr>http_get := \<lambda>tr url. Body ''Not Found''\<rparr>)
       ''out'' ''u1'' ''1000'' [] init_state =
     Return nil_slice (init_state\<lparr>trace :=
       [HttpGet (starred_url ''u1'' ''1000''),
        Log (CantParseJson ''unexpected end of JSON input'' ''Not Found'')]\<rparr>) \<and>
   main_users failing_env (demo_config\<lparr>starsonly := True\<rparr>) [] ['' u1'', ''u2''] init_state =
     Return () (init_state\<lparr>trace :=
       [HttpGet (starred_url ''u1'' ''1000''), Log (CantGetStarred ''u1'' ''no such host''),
        HttpGet (starred_url ''u2'' ''1000''), Log (CantGetStarred ''u2'' ''no such host'')]\<rparr>)"
  using getStars_recovers
          [where E = failing_env and st = init_state and user = "''u1''" and mx = "''1000''"
             and err = "''no such host''" and dir = "''out''" and limit = "[]"
             and cfg = "demo_config\<lparr>starsonly := True\<rparr>" and u = "'' u1''" and us = "[''u2'']"
             and sa = init_state and ra = nil_slice and sb = init_state and rb = nil_slice
             and sc = "init_state\<lparr>trace :=
               [HttpGet (starred_url ''u1'' ''1000''), Log (CantGetStarred ''u1'' ''no such host'')]\<rparr>"]
        getStars_recovers
          [where E = "failing_env\<lparr>http_get := \<lambda>tr url. ReadError ''unexpected EOF''\<rparr>"
             and st = init_state and user = "''u1''" and mx = "''1000''"
             and err = "''unexpected EOF''" and dir = "''out''" and limit = "[]"]
        getStars_recovers
          [where E = "failing_env\<lparr>http_get := \<lambda>tr url. Body ''Not Found''\<rparr>"
             and st = init_state and user = "''u1''" and mx = "''1000''" and body = "''Not Found''"
             and err = "''unexpected end of JSON input''" and dir = "''out''" and limit = "[]"]
  by (simp add: demo_defs getStars_def Unmarshal_def emit_def init_state_def trim_defs)

section \<open>Fatal errors\<close>

lemma no_fatal_append:
  "no_fatal E tr (a @ b) \<longleftrightarrow> no_fatal E tr a \<and> no_fatal E (tr @ a) b"
  by (induction a arbitrary: tr) auto

lemma fail_fast_refl: "fail_fast E st (Return v st)"
  by (simp add: fail_fast_def)

lemma fail_fast_step:
  assumes "trace st1 = trace st @ new" and "no_fatal E (trace st) new" and "fail_fast E st1 out"
  shows "fail_fast E st out"
proof (cases out)
  case (Return v st')
  with assms(3) obtain new' where "trace st' = trace st1 @ new'" "no_fatal E (trace st1) new'"
    by (auto simp: fail_fast_def)
  with assms(1,2) have "trace st' = trace st @ (new @ new')" "no_fatal E (trace st) (new @ new')"
    by (simp_all add: no_fatal_append)
  with Return show ?thesis unfolding fail_fast_def by (simp del: append_assoc)
next
  case (Exit st')
  with assms(3) obtain pre site argv err where
    "trace st' = trace st1 @ pre @ [Exec site argv, Log (Fatal err)]"
    "no_fatal E (trace st1) pre" "site = GhList \<or> site = MainClone"
    "exec_output E (trace st1 @ pre) argv = Inl err"
    by (auto simp: fail_fast_def)
  with assms(1,2) have
    "trace st' = trace st @ (new @ pre) @ [Exec site argv, Log (Fatal err)]"
    "no_fatal E (trace st) (new @ pre)" "site = GhList \<or> site = MainClone"
    "exec_output E (trace st @ (new @ pre)) argv = Inl err"
    by (simp_all add: no_fatal_append)
  with Exit show ?thesis unfolding fail_fast_def by (simp del: append_assoc)
next
  case (Panic st')
  with assms(3) show ?thesis by (simp add: fail_fast_def)
qed

lemma fail_fast_value:
  "fail_fast E st out \<Longrightarrow>
   fail_fast E st (case out of Return c s \<Rightarrow> Return v s | Exit s \<Rightarrow> Exit s | Panic s \<Rightarrow> Panic s)"
  by (cases out) (simp_all add: fail_fast_def)

lemma fail_fast_seq:
  assumes "fail_fast E st (Return v st1)" and "fail_fast E st1 out"
  shows "fail_fast E st out"
proof -
  from assms(1) obtain new where "trace st1 = trace st @ new" "no_fatal E (trace st) new"
    by (auto simp: fail_fast_def)
  from fail_fast_step [OF this assms(2)] show ?thesis .
qed

lemma clone_vals_fail_fast: "fail_fast E st (clone_vals E xs limit dir cur cloned st)"
proof (induction xs arbitrary: cur st)
  case Nil
  show ?case by (simp add: fail_fast_refl)
next
  case (Cons x xs)
  show ?case
  proof (cases "included x limit")
    case False
    with Cons show ?thesis by (simp add: body_skip)
  next
    case True
    show ?thesis
    proof (cases "exec_output E (trace st @ [Printf (reponum st + 1) x]) (main_argv dir x)")
      case (Inl err)
      have "no_fatal E (trace st) [Printf (reponum st + 1) x]"
        by (simp add: fails_def)
      with Inl True show ?thesis
        unfolding fail_fast_def
        by (simp add: body_included)
    next
      case (Inr out)
      define st1 where "st1 = st\<lparr>reponum := reponum st + 1,
                trace := trace st @ [Printf (reponum st + 1) x,
                           Exec MainClone (main_argv dir x), Exec WikiClone (wiki_argv dir x)],
                heap := fst (append_go E (heap st) cur x)\<rparr>"
      have t: "trace st1 = trace st @ [Printf (reponum st + 1) x,
                           Exec MainClone (main_argv dir x), Exec WikiClone (wiki_argv dir x)]"
        by (simp add: st1_def)
      have n: "no_fatal E (trace st) [Printf (reponum st + 1) x,
                           Exec MainClone (main_argv dir x), Exec WikiClone (wiki_argv dir x)]"
        using Inr by (simp add: fails_def)
      have "clone_vals E (x # xs) limit dir cur cloned st =
            clone_vals E xs limit dir (snd (append_go E (heap st) cur x)) cloned st1"
        using Inr True by (simp add: body_included st1_def)
      with fail_fast_step [OF t n Cons.IH] show ?thesis by simp
    qed
  qed
qed

lemma getRepos_fail_fast: "fail_fast E st (getRepos E dir user mx limit st)"
proof (cases "exec_output E (trace st) (gh_argv user mx)")
  case (Inl err)
  then show ?thesis
    unfolding fail_fast_def
    by (simp add: getRepos_gh_error)
next
  case (Inr out)
  then obtain repos st2 where
    t: "trace st2 = trace st @ [Exec GhList (gh_argv user mx)]" and
    g: "getRepos E dir user mx limit st =
       (case clone_vals E (first_fields (Split out (CHR 0x0A))) limit dir repos [] st2 of
          Return cloned st3 \<Rightarrow> Return repos st3
        | Exit s \<Rightarrow> Exit s
        | Panic s \<Rightarrow> Panic s)"
    by (rule getRepos_listed [where limit = limit and dir = dir])
  have n: "no_fatal E (trace st) [Exec GhList (gh_argv user mx)]"
    using Inr by (simp add: fails_def)
  from fail_fast_step [OF t n fail_fast_value [OF clone_vals_fail_fast]] g
  show ?thesis by simp
qed

lemma getStars_fail_fast: "fail_fast E st (getStars E dir user mx limit st)"
proof (cases "http_get E (trace st) (starred_url user mx)")
  case (GetError err)
  then show ?thesis
    unfolding fail_fast_def by (simp add: getStars_def emit_def fails_def)
next
  case (ReadError err)
  then show ?thesis
    unfolding fail_fast_def by (simp add: getStars_def emit_def fails_def)
next
  case (Body body)
  show ?thesis
  proof (cases "Unmarshal E body")
    case (Inl err)
    with Body show ?thesis
      unfolding fail_fast_def by (simp add: getStars_def emit_def fails_def)
  next
    case (Inr jsonData)
    with Body obtain repos st2 where
      t: "trace st2 = trace st @ [HttpGet (starred_url user mx)]" and
      g: "getStars E dir user mx limit st =
         (case clone_vals E (map FullName jsonData) limit dir repos [] st2 of
            Return cloned st3 \<Rightarrow> Return repos st3
          | Exit s \<Rightarrow> Exit s
          | Panic s \<Rightarrow> Panic s)"
      by (rule getStars_parsed [where limit = limit and dir = dir])
    have n: "no_fatal E (trace st) [HttpGet (starred_url user mx)]"
      by (simp add: fails_def)
    from fail_fast_step [OF t n fail_fast_value [OF clone_vals_fail_fast]] g
    show ?thesis by simp
  qed
qed

lemma main_users_fail_fast: "fail_fast E st (main_users E cfg limit users st)"
proof (induction users arbitrary: st)
  case Nil
  show ?case by (simp add: fail_fast_refl)
next
  case (Cons user users)
  define o1 where "o1 = (if \<not> starsonly cfg
            then getRepos E (output_dir cfg) (TrimSpace user) (maxrepo cfg) limit st
            else Return nil_slice st)"
  have f1: "fail_fast E st o1"
    by (simp add: o1_def getRepos_fail_fast fail_fast_refl)
  show ?case
  proof (cases o1)
    case (Exit s)
    with f1 show ?thesis by (simp add: o1_def [symmetric] fail_fast_def)
  next
    case (Panic s)
    with f1 show ?thesis by (simp add: fail_fast_def)
  next
    case (Return r1 st1)
    define o2 where "o2 = (if stars cfg \<or> starsonly cfg
                 then getStars E (output_dir cfg) (TrimSpace user) (maxrepo cfg) limit st1
                 else Return nil_slice st1)"
    have f2: "fail_fast E st1 o2"
      by (simp add: o2_def getStars_fail_fast fail_fast_refl)
    from f1 Return have f1': "fail_fast E st (Return r1 st1)" by simp
    show ?thesis
    proof (cases o2)
      case (Exit s)
      with fail_fast_seq [OF f1' f2] Return show ?thesis
        by (simp add: o1_def [symmetric] o2_def [symmetric] fail_fast_def)
    next
      case (Panic s)
      with f2 show ?thesis by (simp add: fail_fast_def)
    next
      case r2: (Return r2 st2)
      from fail_fast_seq [OF f1' f2] r2 have "fail_fast E st (Return r2 st2)" by simp
      from fail_fast_seq [OF this Cons.IH [of st2]] Return r2 show ?thesis
        by (simp add: o1_def [symmetric] o2_def [symmetric])
    qed
  qed
qed

lemma main_fail_fast: "fail_fast E st (main E cfg st)"
  by (simp add: main_def main_users_fail_fast)

lemma no_fatal_nth:
  assumes "no_fatal E tr new" and "j < length new" and "new ! j = Exec site argv"
    and "site = GhList \<or> site = MainClone"
  shows "\<not> isl (exec_output E (tr @ take j new) argv)"
  using assms
proof (induction new arbitrary: tr j)
  case Nil
  then show ?case by simp
next
  case (Cons e es)
  show ?case
  proof (cases j)
    case 0
    with Cons.prems show ?thesis by (auto simp: fails_def)
  next
    case (Suc i)
    with Cons.prems Cons.IH [of "tr @ [e]" i] show ?thesis by simp
  qed
qed

text \<open>
  Claim C5. Let the event number \<open>k\<close> of a run of main be the listing command of owned
  discovery or a main clone, and let the environment answer it, after the events before
  it, with an error. Then the process ends with exit status 1, and the trace of the run
  ends with this command and the line of \<^verbatim>\<open>log.Fatal\<close> for its error: no command,
  no request and no progress line comes after the failure, for this account or any other.
\<close>

theorem fatal_error_aborts_run:
  assumes "length (trace st) \<le> k" and "k < length (trace (final (main E cfg st)))"
    and "trace (final (main E cfg st)) ! k = Exec site argv"
    and "site = GhList \<or> site = MainClone"
    and "exec_output E (take k (trace (final (main E cfg st)))) argv = Inl err"
  shows "exit_status (main E cfg st) = 1 \<and>
         trace (final (main E cfg st)) =
           take (Suc k) (trace (final (main E cfg st))) @ [Log (Fatal err)]"
proof (cases "main E cfg st")
  case (Return v st')
  with main_fail_fast [of E st cfg] obtain new where
    t: "trace st' = trace st @ new" and n: "no_fatal E (trace st) new"
    by (auto simp: fail_fast_def)
  define j where "j = k - length (trace st)"
  have j: "j < length new" "new ! j = Exec site argv" "take k (trace st') = trace st @ take j new"
    using assms(1-3) Return t by (auto simp: j_def nth_append)
  from no_fatal_nth [OF n j(1) j(2) assms(4)] j(3) assms(5) Return show ?thesis by simp
next
  case (Exit st')
  with main_fail_fast [of E st cfg] obtain pre site' argv' err' where
    t: "trace st' = trace st @ pre @ [Exec site' argv', Log (Fatal err')]" and
    n: "no_fatal E (trace st) pre" and
    e: "exec_output E (trace st @ pre) argv' = Inl err'"
    by (auto simp: fail_fast_def)
  define j where "j = k - length (trace st)"
  have k: "k = length (trace st) + j" using assms(1) by (simp add: j_def)
  have jl: "j < length pre + 2" using assms(2) Exit t k by simp
  consider "j < length pre" | "j = length pre" | "j = Suc (length pre)" using jl by linarith
  then show ?thesis
  proof cases
    case 1
    then have "pre ! j = Exec site argv" "take k (trace st') = trace st @ take j pre"
      using assms(3) Exit t k by (auto simp: nth_append)
    with no_fatal_nth [OF n 1 _ assms(4)] assms(5) Exit show ?thesis by simp
  next
    case 2
    then have "argv' = argv" "take k (trace st') = trace st @ pre"
      "take (Suc k) (trace st') = trace st @ pre @ [Exec site' argv']"
      using assms(3) Exit t k by (auto simp: nth_append)
    with e assms(5) Exit t show ?thesis by simp
  next
    case 3
    then have "trace st' ! k = Log (Fatal err')"
      using t k by (simp add: nth_append)
    with assms(3) Exit show ?thesis by simp
  qed
next
  case (Panic s)
  with main_fail_fast [of E st cfg] show ?thesis by (simp add: fail_fast_def)
qed

text \<open>
  The accounts \<open>u1\<close> and \<open>u2\<close>, the main clone of \<open>c/d\<close> failing: the run stops in
  the owned repositories of \<open>u1\<close>, before its starred repositories and before \<open>u2\<close>.
\<close>

theorem fatal_error_aborts_run_witness:
  "length (trace init_state) \<le> 5 \<and>
   trace (final (main second_fails_env demo_config init_state)) ! 5 =
     Exec MainClone (main_argv ''out'' ''c/d'') \<and>
   exec_output second_fails_env (take 5 (trace (final (main second_fails_env demo_config init_state))))
     (main_argv ''out'' ''c/d'') = Inl ''exit status 128'' \<and>
   exit_status (main second_fails_env demo_config init_state) = 1 \<and>
   trace (final (main second_fails_env demo_config init_state)) =
     [Exec GhList (gh_argv ''u1'' ''1000''),
      Printf 1 ''a/b'', Exec MainClone (main_argv ''out'' ''a/b''),
      Exec WikiClone (wiki_argv ''out'' ''a/b''),
      Printf 2 ''c/d'', Exec MainClone (main_argv ''out'' ''c/d''),
      Log (Fatal ''exit status 128'')]"
  using fatal_error_aborts_run
          [where E = second_fails_env and cfg = demo_config and st = init_state and k = 5
             and site = MainClone and argv = "main_argv ''out'' ''c/d''"
             and err = "''exit status 128''"]
  by (simp add: demo_defs run_defs parse_defs main_defs trim_defs upt_rec)

section \<open>Wiki clones\<close>

lemma append_go_exec_run [simp]: "append_go (E\<lparr>exec_run := f\<rparr>) h s v = append_go E h s v"
  by (simp add: append_go_def)

lemma body_exec_run:
  "cloneRepos_body (E\<lparr>exec_run := f\<rparr>) limit dir x cur st = cloneRepos_body E limit dir x cur st"
  by (cases "included x limit") (simp_all add: body_skip body_included split: sum.splits)

lemma range_exec_run:
  "cloneRepos_range (E\<lparr>exec_run := f\<rparr>) rng is limit dir cur cloned st =
   cloneRepos_range E rng is limit dir cur cloned st"
proof (induction "is" arbitrary: cur st)
  case Nil
  show ?case by simp
next
  case (Cons i "is")
  then show ?case by (simp add: body_exec_run split: step.splits)
qed

lemma cloneRepos_exec_run [simp]:
  "cloneRepos (E\<lparr>exec_run := f\<rparr>) repos limit dir st = cloneRepos E repos limit dir st"
  by (simp add: cloneRepos_def range_exec_run)

lemma getRepos_parse_exec_run [simp]:
  "getRepos_parse (E\<lparr>exec_run := f\<rparr>) strs repos st = getRepos_parse E strs repos st"
  by (induction strs arbitrary: repos st) (auto split: list.splits prod.splits)

lemma getStars_collect_exec_run [simp]:
  "getStars_collect (E\<lparr>exec_run := f\<rparr>) ds repos st = getStars_collect E ds repos st"
  by (induction ds arbitrary: repos st) (auto split: prod.splits)

lemma getRepos_exec_run [simp]:
  "getRepos (E\<lparr>exec_run := f\<rparr>) dir user mx limit st = getRepos E dir user mx limit st"
  by (simp add: getRepos_def Let_def split: sum.splits outcome.splits)

lemma getStars_exec_run [simp]:
  "getStars (E\<lparr>exec_run := f\<rparr>) dir user mx limit st = getStars E dir user mx limit st"
  by (simp add: getStars_def Unmarshal_def Let_def
        split: sum.splits outcome.splits http_result.splits prod.splits)

lemma main_users_exec_run [simp]:
  "main_users (E\<lparr>exec_run := f\<rparr>) cfg limit users st = main_users E cfg limit users st"
  by (induction users arbitrary: st) (simp_all split: outcome.splits)

text \<open>
  Claim C6. Nothing that cloneRepos or the whole run does depends on the results of the
  wiki clones: with any two answers \<open>f\<close> and \<open>g\<close> of the environment to them, the
  outcome is the same, that is the same exit status, the same returned list and the same
  final state, whose trace holds every command run, every request sent and every line
  printed or logged. So a wiki clone that fails leaves no line in the log, stops no later
  repository from being processed, and changes neither the result nor the exit status.
\<close>

theorem wiki_failure_changes_nothing:
  "cloneRepos (E\<lparr>exec_run := f\<rparr>) repos limit dir st =
     cloneRepos (E\<lparr>exec_run := g\<rparr>) repos limit dir st \<and>
   main (E\<lparr>exec_run := f\<rparr>) cfg st = main (E\<lparr>exec_run := g\<rparr>) cfg st"
  by (simp add: main_def)

text \<open>
  With every wiki clone failing, the call processes \<open>a/b\<close> and \<open>c/d\<close> and returns,
  as it does when they succeed.
\<close>

theorem wiki_failure_changes_nothing_witness:
  "cloneRepos (demo_env\<lparr>exec_run := \<lambda>tr argv. Some ''exit status 128''\<rparr>) demo_slice [] ''out'' demo_state =
     cloneRepos (demo_env\<lparr>exec_run := \<lambda>tr argv. None\<rparr>) demo_slice [] ''out'' demo_state \<and>
   cloneRepos (demo_env\<lparr>exec_run := \<lambda>tr argv. Some ''exit status 128''\<rparr>) demo_slice [] ''out'' demo_state =
     Return []
       \<lparr>reponum = 2,
        trace = [Printf 1 ''a/b'', Exec MainClone (main_argv ''out'' ''a/b''),
                 Exec WikiClone (wiki_argv ''out'' ''a/b''),
                 Printf 2 ''c/d'', Exec MainClone (main_argv ''out'' ''c/d''),
                 Exec WikiClone (wiki_argv ''out'' ''c/d'')],
        heap = [[''a/b'', ''c/d'', ''a/b'', ''c/d'']]\<rparr>"
  using wiki_failure_changes_nothing
          [where E = demo_env and f = "\<lambda>tr argv. Some ''exit status 128''" and g = "\<lambda>tr argv. None"
             and repos = demo_slice and limit = "[]" and dir = "''out''" and st = demo_state]
  by (simp add: demo_defs run_defs upt_rec)

section \<open>Which discoveries run\<close>

lemma discovers_refl: "discovers [] [] st (Return v st)"
  by (simp add: discovers_def)

lemma discovers_seq:
  assumes "discovers g1 u1 st (Return v st1)" and "discovers g2 u2 st1 out"
  shows "discovers (g1 @ g2) (u1 @ u2) st out"
proof -
  from assms obtain new1 new2 where
    "trace st1 = trace st @ new1" "gh_calls new1 = g1" "http_calls new1 = u1"
    "trace (final out) = trace st1 @ new2" "gh_calls new2 = g2" "http_calls new2 = u2"
    by (auto simp: discovers_def)
  then have "trace (final out) = trace st @ (new1 @ new2) \<and>
             gh_calls (new1 @ new2) = g1 @ g2 \<and> http_calls (new1 @ new2) = u1 @ u2"
    by simp
  then show ?thesis unfolding discovers_def by blast
qed

lemma discovers_value:
  "discovers g u st out \<Longrightarrow>
   discovers g u st (case out of Return c s \<Rightarrow> Return v s | Exit s \<Rightarrow> Exit s | Panic s \<Rightarrow> Panic s)"
  by (cases out) (simp_all add: discovers_def)

lemma clone_vals_discovers: "discovers [] [] st (clone_vals E xs limit dir cur cloned st)"
proof (cases "clone_vals E xs limit dir cur cloned st")
  case (Return c st')
  from clone_vals_Return [OF Return] show ?thesis
    by (simp add: Return discovers_def)
next
  case (Exit st')
  from clone_vals_Exit [OF Exit] obtain pre r post err where
    "trace st' = trace st @ blocks dir (reponum st) pre @
       [Printf (reponum st + int (length pre) + 1) r, Exec MainClone (main_argv dir r),
        Log (Fatal err)]"
    by blast
  then show ?thesis by (simp add: Exit discovers_def)
next
  case (Panic s)
  with clone_vals_no_Panic show ?thesis by blast
qed

lemma getRepos_discovers: "discovers [gh_argv user mx] [] st (getRepos E dir user mx limit st)"
proof (cases "exec_output E (trace st) (gh_argv user mx)")
  case (Inl err)
  then show ?thesis
    unfolding discovers_def by (simp add: getRepos_gh_error)
next
  case (Inr out)
  then obtain repos st2 where
    t: "trace st2 = trace st @ [Exec GhList (gh_argv user mx)]" and
    g: "getRepos E dir user mx limit st =
       (case clone_vals E (first_fields (Split out (CHR 0x0A))) limit dir repos [] st2 of
          Return cloned st3 \<Rightarrow> Return repos st3
        | Exit s \<Rightarrow> Exit s
        | Panic s \<Rightarrow> Panic s)"
    by (rule getRepos_listed [where limit = limit and dir = dir])
  from t have "discovers [gh_argv user mx] [] st (Return () st2)"
    by (simp add: discovers_def)
  from discovers_seq [OF this discovers_value [OF clone_vals_discovers]] g
  show ?thesis by simp
qed

lemma getStars_discovers: "discovers [] [starred_url user mx] st (getStars E dir user mx limit st)"
proof (cases "http_get E (trace st) (starred_url user mx)")
  case (GetError err)
  then show ?thesis
    unfolding discovers_def by (simp add: getStars_def emit_def)
next
  case (ReadError err)
  then show ?thesis
    unfolding discovers_def by (simp add: getStars_def emit_def)
next
  case (Body body)
  show ?thesis
  proof (cases "Unmarshal E body")
    case (Inl err)
    with Body show ?thesis
      unfolding discovers_def by (simp add: getStars_def emit_def)
  next
    case (Inr jsonData)
    with Body obtain repos st2 where
      t: "trace st2 = trace st @ [HttpGet (starred_url user mx)]" and
      g: "getStars E dir user mx limit st =
         (case clone_vals E (map FullName jsonData) limit dir repos [] st2 of
            Return cloned st3 \<Rightarrow> Return repos st3
          | Exit s \<Rightarrow> Exit s
          | Panic s \<Rightarrow> Panic s)"
      by (rule getStars_parsed [where limit = limit and dir = dir])
    from t have "discovers [] [starred_url user mx] st (Return () st2)"
      by (simp add: discovers_def)
    from discovers_seq [OF this discovers_value [OF clone_vals_discovers]] g
    show ?thesis by simp
  qed
qed

lemma main_users_discovers:
  "\<exists>n m. discovers (take n (owned_calls cfg users)) (take m (starred_calls cfg users)) st
            (main_users E cfg limit users st) \<and>
          (exit_status (main_users E cfg limit users st) = 0 \<longrightarrow>
             length users \<le> n \<and> length users \<le> m)"
proof (induction users arbitrary: st)
  case Nil
  show ?case by (simp add: discovers_refl owned_calls_def starred_calls_def)
next
  case (Cons user users)
  define o1 where "o1 = (if \<not> starsonly cfg
            then getRepos E (output_dir cfg) (TrimSpace user) (maxrepo cfg) limit st
            else Return nil_slice st)"
  have f1: "discovers (owned_calls cfg [user]) [] st o1"
    by (simp add: o1_def owned_calls_def getRepos_discovers discovers_refl)
  have o: "owned_calls cfg (user # users) = owned_calls cfg [user] @ owned_calls cfg users"
    by (simp add: owned_calls_def)
  have s: "starred_calls cfg (user # users) = starred_calls cfg [user] @ starred_calls cfg users"
    by (simp add: starred_calls_def)
  have lo: "take 1 (owned_calls cfg (user # users)) = owned_calls cfg [user]"
    by (simp add: owned_calls_def)
  have ls: "take 1 (starred_calls cfg (user # users)) = starred_calls cfg [user]"
    by (simp add: starred_calls_def)
  show ?case
  proof (cases o1)
    case (Exit e)
    with f1 have "discovers (take 1 (owned_calls cfg (user # users)))
                    (take 0 (starred_calls cfg (user # users))) st (Exit e :: unit outcome)"
      using lo by (simp add: discovers_def)
    then have d: "discovers (take 1 (owned_calls cfg (user # users)))
                    (take 0 (starred_calls cfg (user # users))) st
                    (main_users E cfg limit (user # users) st)"
      and x: "exit_status (main_users E cfg limit (user # users) st) \<noteq> 0"
      using Exit by (simp_all add: o1_def [symmetric])
    show ?thesis
      by (rule exI [of _ 1], rule exI [of _ 0]) (use d x in blast)
  next
    case (Panic e)
    with f1 have "discovers (take 1 (owned_calls cfg (user # users)))
                    (take 0 (starred_calls cfg (user # users))) st (Panic e :: unit outcome)"
      using lo by (simp add: discovers_def)
    then have d: "discovers (take 1 (owned_calls cfg (user # users)))
                    (take 0 (starred_calls cfg (user # users))) st
                    (main_users E cfg limit (user # users) st)"
      and x: "exit_status (main_users E cfg limit (user # users) st) \<noteq> 0"
      using Panic by (simp_all add: o1_def [symmetric])
    show ?thesis
      by (rule exI [of _ 1], rule exI [of _ 0]) (use d x in blast)
  next
    case (Return r1 st1)
    define o2 where "o2 = (if stars cfg \<or> starsonly cfg
                 then getStars E (output_dir cfg) (TrimSpace user) (maxrepo cfg) limit st1
                 else Return nil_slice st1)"
    have f2: "discovers [] (starred_calls cfg [user]) st1 o2"
      by (simp add: o2_def starred_calls_def getStars_discovers discovers_refl)
    from f1 Return have f1': "discovers (owned_calls cfg [user]) [] st (Return r1 st1)" by simp
    from discovers_seq [OF f1' f2]
    have f12: "discovers (owned_calls cfg [user]) (starred_calls cfg [user]) st o2" by simp
    show ?thesis
    proof (cases o2)
      case (Exit e)
      with f12 have "discovers (take 1 (owned_calls cfg (user # users)))
                    (take 1 (starred_calls cfg (user # users))) st (Exit e :: unit outcome)"
        using lo ls by (simp add: discovers_def)
      then have d: "discovers (take 1 (owned_calls cfg (user # users)))
                    (take 1 (starred_calls cfg (user # users))) st
                    (main_users E cfg limit (user # users) st)"
        and x: "exit_status (main_users E cfg limit (user # users) st) \<noteq> 0"
        using Exit Return by (simp_all add: o1_def [symmetric] o2_def [symmetric])
      show ?thesis
        by (rule exI [of _ 1], rule exI [of _ 1]) (use d x in blast)
    next
      case (Panic e)
      with f12 have "discovers (take 1 (owned_calls cfg (user # users)))
                    (take 1 (starred_calls cfg (user # users))) st (Panic e :: unit outcome)"
        using lo ls by (simp add: discovers_def)
      then have d: "discovers (take 1 (owned_calls cfg (user # users)))
                    (take 1 (starred_calls cfg (user # users))) st
                    (main_users E cfg limit (user # users) st)"
        and x: "exit_status (main_users E cfg limit (user # users) st) \<noteq> 0"
        using Panic Return by (simp_all add: o1_def [symmetric] o2_def [symmetric])
      show ?thesis
        by (rule exI [of _ 1], rule exI [of _ 1]) (use d x in blast)
    next
      case r2: (Return r2 st2)
      from f12 r2 have a: "discovers (owned_calls cfg [user]) (starred_calls cfg [user]) st
                            (Return r2 st2)" by simp
      from Cons.IH [of st2] obtain n m where
        d: "discovers (take n (owned_calls cfg users)) (take m (starred_calls cfg users)) st2
              (main_users E cfg limit users st2)" and
        e: "exit_status (main_users E cfg limit users st2) = 0 \<longrightarrow>
              length users \<le> n \<and> length users \<le> m"
        by (elim exE conjE)
      have eq: "main_users E cfg limit (user # users) st = main_users E cfg limit users st2"
        using Return r2 by (simp add: o1_def [symmetric] o2_def [symmetric])
      have "owned_calls cfg [user] @ take n (owned_calls cfg users) =
            take (Suc n) (owned_calls cfg (user # users))"
        by (simp add: owned_calls_def)
      moreover have "starred_calls cfg [user] @ take m (starred_calls cfg users) =
            take (Suc m) (starred_calls cfg (user # users))"
        by (simp add: starred_calls_def)
      ultimately have A: "discovers (take (Suc n) (owned_calls cfg (user # users)))
              (take (Suc m) (starred_calls cfg (user # users))) st
              (main_users E cfg limit (user # users) st)"
        using discovers_seq [OF a d] eq by simp
      have B: "exit_status (main_users E cfg limit (user # users) st) = 0 \<longrightarrow>
              length (user # users) \<le> Suc n \<and> length (user # users) \<le> Suc m"
        using e eq by simp
      show ?thesis
        by (rule exI [of _ "Suc n"], rule exI [of _ "Suc m"]) (rule conjI [OF A B])
    qed
  qed
qed

text \<open>
  Claim C8, amended. With \<open>starsonly\<close> no listing command of owned discovery is ever
  run, and without \<open>stars\<close> and \<open>starsonly\<close> no request of starred discovery is ever
  sent. The listing commands and the requests of a run are always those that the flags
  ask for, for the accounts of a beginning of the account list, in order. In a run that
  ends with exit status 0 they are those of all the accounts: owned discovery is called
  once for each account exactly when \<open>starsonly\<close> is false, and starred discovery once
  for each account exactly when \<open>stars\<close> or \<open>starsonly\<close> is true.
\<close>

theorem discovery_follows_flags:
  "(starsonly cfg \<longrightarrow> gh_calls (trace (final (main E cfg init_state))) = []) \<and>
   (\<not> stars cfg \<and> \<not> starsonly cfg \<longrightarrow>
      http_calls (trace (final (main E cfg init_state))) = []) \<and>
   (\<exists>n m. gh_calls (trace (final (main E cfg init_state))) =
             take n (owned_calls cfg (Split (userslist cfg) (CHR '',''))) \<and>
          http_calls (trace (final (main E cfg init_state))) =
             take m (starred_calls cfg (Split (userslist cfg) (CHR '','')))) \<and>
   (exit_status (main E cfg init_state) = 0 \<longrightarrow>
      gh_calls (trace (final (main E cfg init_state))) =
        owned_calls cfg (Split (userslist cfg) (CHR '','')) \<and>
      http_calls (trace (final (main E cfg init_state))) =
        starred_calls cfg (Split (userslist cfg) (CHR '','')))"
proof -
  define users where "users = Split (userslist cfg) (CHR '','')"
  define out where "out = main E cfg init_state"
  from main_users_discovers [of cfg users init_state E "parse_limit (limitslist cfg)"]
  obtain n m where
    d: "discovers (take n (owned_calls cfg users)) (take m (starred_calls cfg users)) init_state out"
    and e: "exit_status out = 0 \<longrightarrow> length users \<le> n \<and> length users \<le> m"
    unfolding out_def users_def main_def by (elim exE conjE)
  from d have g: "gh_calls (trace (final out)) = take n (owned_calls cfg users)"
    and h: "http_calls (trace (final out)) = take m (starred_calls cfg users)"
    by (auto simp: discovers_def init_state_def)
  have 1: "starsonly cfg \<longrightarrow> gh_calls (trace (final out)) = []"
    using g by (simp add: owned_calls_def)
  have 2: "\<not> stars cfg \<and> \<not> starsonly cfg \<longrightarrow> http_calls (trace (final out)) = []"
    using h by (simp add: starred_calls_def)
  have 3: "\<exists>n m. gh_calls (trace (final out)) = take n (owned_calls cfg users) \<and>
                 http_calls (trace (final out)) = take m (starred_calls cfg users)"
    using g h by blast
  have 4: "exit_status out = 0 \<longrightarrow>
             gh_calls (trace (final out)) = owned_calls cfg users \<and>
             http_calls (trace (final out)) = starred_calls cfg users"
    using g h e by (auto simp: owned_calls_def starred_calls_def)
  from 1 2 3 4 show ?thesis unfolding out_def users_def by blast
qed

text \<open>
  Two accounts. With \<open>starsonly\<close>: no listing command, one request for each account.
  Without \<open>stars\<close> and \<open>starsonly\<close>: one listing command for each account, no
  request.
\<close>

theorem discovery_follows_flags_witness:
  "starsonly (demo_config\<lparr>starsonly := True, limitslist := ''x/y''\<rparr>) \<and>
   exit_status (main demo_env (demo_config\<lparr>starsonly := True, limitslist := ''x/y''\<rparr>) init_state) = 0 \<and>
   gh_calls (trace (final (main demo_env (demo_config\<lparr>starsonly := True, limitslist := ''x/y''\<rparr>)
      init_state))) = [] \<and>
   http_calls (trace (final (main demo_env (demo_config\<lparr>starsonly := True, limitslist := ''x/y''\<rparr>)
      init_state))) = [starred_url ''u1'' ''1000'', starred_url ''u2'' ''1000''] \<and>
   \<not> stars (demo_config\<lparr>stars := False, limitslist := ''a/b''\<rparr>) \<and>
   \<not> starsonly (demo_config\<lparr>stars := False, limitslist := ''a/b''\<rparr>) \<and>
   exit_status (main demo_env (demo_config\<lparr>stars := False, limitslist := ''a/b''\<rparr>) init_state) = 0 \<and>
   gh_calls (trace (final (main demo_env (demo_config\<lparr>stars := False, limitslist := ''a/b''\<rparr>)
      init_state))) = [gh_argv ''u1'' ''1000'', gh_argv ''u2'' ''1000''] \<and>
   http_calls (trace (final (main demo_env (demo_config\<lparr>stars := False, limitslist := ''a/b''\<rparr>)
      init_state))) = []"
  using discovery_follows_flags
          [where E = demo_env and cfg = "demo_config\<lparr>starsonly := True, limitslist := ''x/y''\<rparr>"]
        discovery_follows_flags
          [where E = demo_env and cfg = "demo_config\<lparr>stars := False, limitslist := ''a/b''\<rparr>"]
  by (simp add: demo_defs run_defs parse_defs main_defs trim_defs upt_rec)

text \<open>
  Claim C8 as it is stated fails when a run is aborted: \<open>stars\<close> is set and
  \<open>starsonly\<close> is not, the listing of \<open>u1\<close> fails, and the run ends without any
  starred discovery and without owned discovery for \<open>u2\<close>.
\<close>

theorem discovery_follows_flags_counterexample:
  "stars demo_config \<and> \<not> starsonly demo_config \<and>
   Split (userslist demo_config) (CHR '','') = [''u1'', '' u2''] \<and>
   gh_calls (trace (final (main failing_env demo_config init_state))) = [gh_argv ''u1'' ''1000''] \<and>
   http_calls (trace (final (main failing_env demo_config init_state))) = []"
  by (simp add: demo_defs run_defs parse_defs main_defs trim_defs)

section \<open>The progress counter\<close>

lemma tally_refl: "tally dir st (Return v st)"
  by (simp add: tally_def)

lemma tally_seq:
  assumes "tally dir st (Return v st1)" and "tally dir st1 out"
  shows "tally dir st out"
proof -
  from assms(1) obtain new1 where 1:
    "trace st1 = trace st @ new1" "reponum st \<le> reponum st1"
    "map fst (printed new1) = [reponum st + 1 .. reponum st1]"
    "main_clones new1 = map (\<lambda>p. main_argv dir (snd p)) (printed new1)"
    by (auto simp: tally_def)
  from assms(2) obtain new2 where 2:
    "trace (final out) = trace st1 @ new2" "reponum st1 \<le> reponum (final out)"
    "map fst (printed new2) = [reponum st1 + 1 .. reponum (final out)]"
    "main_clones new2 = map (\<lambda>p. main_argv dir (snd p)) (printed new2)"
    by (auto simp: tally_def)
  have "[reponum st + 1 .. reponum (final out)] =
        [reponum st + 1 .. reponum st1] @ [reponum st1 + 1 .. reponum (final out)]"
  proof (cases "reponum st = reponum st1")
    case True
    then show ?thesis by simp
  next
    case False
    with 1(2) 2(2) show ?thesis
      using upto_split2 [of "reponum st + 1" "reponum st1" "reponum (final out)"] by simp
  qed
  with 1 2 have
    "trace (final out) = trace st @ (new1 @ new2) \<and>
     reponum st \<le> reponum (final out) \<and>
     map fst (printed (new1 @ new2)) = [reponum st + 1 .. reponum (final out)] \<and>
     main_clones (new1 @ new2) = map (\<lambda>p. main_argv dir (snd p)) (printed (new1 @ new2))"
    by simp
  then show ?thesis unfolding tally_def by blast
qed

lemma tally_quiet:
  assumes "trace st1 = trace st @ new" and "printed new = []" and "main_clones new = []"
    and "reponum st1 = reponum st" and "tally dir st1 out"
  shows "tally dir st out"
proof -
  have "tally dir st (Return () st1)"
    using assms(1-4) by (simp add: tally_def)
  from tally_seq [OF this assms(5)] show ?thesis .
qed

lemma tally_value:
  "tally dir st out \<Longrightarrow>
   tally dir st (case out of Return c s \<Rightarrow> Return v s | Exit s \<Rightarrow> Exit s | Panic s \<Rightarrow> Panic s)"
  by (cases out) (simp_all add: tally_def)

lemma tally_Exit:
  "tally dir st (Exit s :: 'a outcome) \<Longrightarrow> tally dir st (Exit s :: 'b outcome)"
  by (simp add: tally_def)

lemma tally_Panic:
  "tally dir st (Panic s :: 'a outcome) \<Longrightarrow> tally dir st (Panic s :: 'b outcome)"
  by (simp add: tally_def)

lemma clone_vals_tally: "tally dir st (clone_vals E xs limit dir cur cloned st)"
proof (cases "clone_vals E xs limit dir cur cloned st")
  case (Return c st')
  from clone_vals_Return [OF Return]
  show ?thesis
    unfolding tally_def
    using printed_blocks [of dir "reponum st" "filter (\<lambda>x. included x limit) xs"]
    by (simp add: Return main_clones_printed_blocks)
next
  case (Exit st')
  from clone_vals_Exit [OF Exit] obtain pre r post err where
    n: "reponum st' = reponum st + int (length pre) + 1" and
    t: "trace st' = trace st @ blocks dir (reponum st) pre @
       [Printf (reponum st + int (length pre) + 1) r, Exec MainClone (main_argv dir r),
        Log (Fatal err)]"
    by blast
  note p = printed_blocks [of dir "reponum st" pre]
  note m = main_clones_printed_blocks [of dir "reponum st" pre]
  have u: "[reponum st + 1 .. reponum st + int (length pre) + 1] =
        [reponum st + 1 .. reponum st + int (length pre)] @ [reponum st + int (length pre) + 1]"
    using upto_rec2 [of "reponum st + 1" "reponum st + int (length pre) + 1"] by simp
  show ?thesis
    unfolding tally_def
    using n t p m u by (simp add: Exit)
next
  case (Panic s)
  with clone_vals_no_Panic show ?thesis by blast
qed

lemma getRepos_tally: "tally dir st (getRepos E dir user mx limit st)"
proof (cases "exec_output E (trace st) (gh_argv user mx)")
  case (Inl err)
  then show ?thesis
    unfolding tally_def by (simp add: getRepos_gh_error)
next
  case (Inr out)
  then obtain repos st2 where
    t: "trace st2 = trace st @ [Exec GhList (gh_argv user mx)]" and
    n: "reponum st2 = reponum st" and
    g: "getRepos E dir user mx limit st =
       (case clone_vals E (first_fields (Split out (CHR 0x0A))) limit dir repos [] st2 of
          Return cloned st3 \<Rightarrow> Return repos st3
        | Exit s \<Rightarrow> Exit s
        | Panic s \<Rightarrow> Panic s)"
    by (rule getRepos_listed [where limit = limit and dir = dir])
  from tally_quiet [OF t _ _ n tally_value [OF clone_vals_tally]] g
  show ?thesis by simp
qed

lemma getStars_tally: "tally dir st (getStars E dir user mx limit st)"
proof (cases "http_get E (trace st) (starred_url user mx)")
  case (GetError err)
  then show ?thesis
    unfolding tally_def by (simp add: getStars_def emit_def)
next
  case (ReadError err)
  then show ?thesis
    unfolding tally_def by (simp add: getStars_def emit_def)
next
  case (Body body)
  show ?thesis
  proof (cases "Unmarshal E body")
    case (Inl err)
    with Body show ?thesis
      unfolding tally_def by (simp add: getStars_def emit_def)
  next
    case (Inr jsonData)
    with Body obtain repos st2 where
      t: "trace st2 = trace st @ [HttpGet (starred_url user mx)]" and
      n: "reponum st2 = reponum st" and
      g: "getStars E dir user mx limit st =
         (case clone_vals E (map FullName jsonData) limit dir repos [] st2 of
            Return cloned st3 \<Rightarrow> Return repos st3
          | Exit s \<Rightarrow> Exit s
          | Panic s \<Rightarrow> Panic s)"
      by (rule getStars_parsed [where limit = limit and dir = dir])
    from tally_quiet [OF t _ _ n tally_value [OF clone_vals_tally]] g
    show ?thesis by simp
  qed
qed

lemma main_users_tally: "tally (output_dir cfg) st (main_users E cfg limit users st)"
proof (induction users arbitrary: st)
  case Nil
  show ?case by (simp add: tally_refl)
next
  case (Cons user users)
  define o1 where "o1 = (if \<not> starsonly cfg
            then getRepos E (output_dir cfg) (TrimSpace user) (maxrepo cfg) limit st
            else Return nil_slice st)"
  have f1: "tally (output_dir cfg) st o1"
    by (simp add: o1_def getRepos_tally tally_refl)
  show ?case
  proof (cases o1)
    case (Exit s)
    with f1 tally_Exit show ?thesis by (simp add: o1_def [symmetric])
  next
    case (Panic s)
    with f1 tally_Panic show ?thesis by (simp add: o1_def [symmetric])
  next
    case (Return r1 st1)
    define o2 where "o2 = (if stars cfg \<or> starsonly cfg
                 then getStars E (output_dir cfg) (TrimSpace user) (maxrepo cfg) limit st1
                 else Return nil_slice st1)"
    have f2: "tally (output_dir cfg) st1 o2"
      by (simp add: o2_def getStars_tally tally_refl)
    from f1 Return have f1': "tally (output_dir cfg) st (Return r1 st1)" by simp
    note f12 = tally_seq [OF f1' f2]
    show ?thesis
    proof (cases o2)
      case (Exit s)
      with f12 tally_Exit Return show ?thesis
        by (simp add: o1_def [symmetric] o2_def [symmetric])
    next
      case (Panic s)
      with f12 tally_Panic Return show ?thesis
        by (simp add: o1_def [symmetric] o2_def [symmetric])
    next
      case r2: (Return r2 st2)
      from f12 r2 have "tally (output_dir cfg) st (Return r2 st2)" by simp
      from tally_seq [OF this Cons.IH [of st2]] Return r2 show ?thesis
        by (simp add: o1_def [symmetric] o2_def [symmetric])
    qed
  qed
qed

text \<open>
  What is due for the events of a loop of cloneRepos is nothing, and what the loop prints
  are the included elements of its list, or a beginning of them when it ends the process.
\<close>

lemma due_append: "due E limit tr (a @ b) = due E limit tr a @ due E limit (tr @ a) b"
  by (induction a arbitrary: tr) auto

lemma due_blocks [simp]: "due E limit tr (blocks dir n rs) = []"
  by (induction rs arbitrary: tr n) (simp_all add: answered_def)

lemma snd_printed_blocks [simp]: "map snd (printed (blocks dir n rs)) = rs"
  using printed_blocks [of dir n rs] by simp

lemma progresses_refl: "progresses E limit st (Return v st)"
  by (simp add: progresses_def)

lemma progresses_seq:
  assumes "progresses E limit st (Return v st1)" and "progresses E limit st1 out"
  shows "progresses E limit st out"
proof -
  from assms(1) obtain new1 where 1:
    "trace st1 = trace st @ new1" "map snd (printed new1) = due E limit (trace st) new1"
    by (auto simp: progresses_def)
  from assms(2) [unfolded progresses_def] obtain new2 k where 2:
    "trace (final out) = trace st1 @ new2"
    "map snd (printed new2) = take k (due E limit (trace st1) new2)"
    "exit_status out = 0 \<longrightarrow> map snd (printed new2) = due E limit (trace st1) new2"
    by (elim exE conjE)
  have a: "trace (final out) = trace st @ (new1 @ new2)"
    using 1 2 by simp
  have b: "map snd (printed (new1 @ new2)) =
           take (length (due E limit (trace st) new1) + k) (due E limit (trace st) (new1 @ new2))"
    using 1 2 by (simp add: due_append)
  have c: "exit_status out = 0 \<longrightarrow>
           map snd (printed (new1 @ new2)) = due E limit (trace st) (new1 @ new2)"
    using 1 2 by (simp add: due_append)
  show ?thesis
    unfolding progresses_def
    by (rule exI [of _ "new1 @ new2"], intro conjI exI [of _ "length (due E limit (trace st) new1) + k"])
       (rule a, rule b, rule c)
qed

lemma progresses_Exit:
  "progresses E limit st (Exit s :: 'a outcome) \<Longrightarrow> progresses E limit st (Exit s :: 'b outcome)"
  by (simp add: progresses_def)

lemma progresses_Panic:
  "progresses E limit st (Panic s :: 'a outcome) \<Longrightarrow> progresses E limit st (Panic s :: 'b outcome)"
  by (simp add: progresses_def)

text \<open>What a call of the loop of cloneRepos prints.\<close>

lemma clone_vals_printed:
  "\<exists>new k. trace (final (clone_vals E xs limit dir cur cloned st)) = trace st @ new \<and>
     (\<forall>tr. due E limit tr new = []) \<and>
     map snd (printed new) = take k (filter (\<lambda>x. included x limit) xs) \<and>
     (exit_status (clone_vals E xs limit dir cur cloned st) = 0 \<longrightarrow>
        map snd (printed new) = filter (\<lambda>x. included x limit) xs)"
proof (cases "clone_vals E xs limit dir cur cloned st")
  case (Return c st')
  let ?acc = "filter (\<lambda>x. included x limit) xs"
  from clone_vals_Return [OF Return]
  have t: "trace st' = trace st @ blocks dir (reponum st) ?acc" by simp
  show ?thesis
    by (rule exI [of _ "blocks dir (reponum st) ?acc"], rule exI [of _ "length ?acc"])
       (simp add: Return t)
next
  case (Exit st')
  from clone_vals_Exit [OF Exit] obtain pre r post err where
    f: "filter (\<lambda>x. included x limit) xs = pre @ r # post" and
    t: "trace st' = trace st @ blocks dir (reponum st) pre @
       [Printf (reponum st + int (length pre) + 1) r, Exec MainClone (main_argv dir r),
        Log (Fatal err)]"
    by blast
  show ?thesis
    by (rule exI [of _ "blocks dir (reponum st) pre @
       [Printf (reponum st + int (length pre) + 1) r, Exec MainClone (main_argv dir r),
        Log (Fatal err)]"], rule exI [of _ "Suc (length pre)"])
       (simp add: Exit t f due_append answered_def)
next
  case (Panic s)
  with clone_vals_no_Panic show ?thesis by blast
qed


lemma final_value [simp]:
  "final (case out of Return c s \<Rightarrow> Return v s | Exit s \<Rightarrow> Exit s | Panic s \<Rightarrow> Panic s) = final out"
  by (cases out) simp_all

lemma exit_status_value [simp]:
  "exit_status (case out of Return c s \<Rightarrow> Return v s | Exit s \<Rightarrow> Exit s | Panic s \<Rightarrow> Panic s) =
   exit_status out"
  by (cases out) simp_all

lemma getRepos_progresses: "progresses E limit st (getRepos E dir user mx limit st)"
proof (cases "exec_output E (trace st) (gh_argv user mx)")
  case (Inl err)
  then show ?thesis
    unfolding progresses_def by (simp add: getRepos_gh_error answered_def)
next
  case (Inr out)
  let ?xs = "first_fields (Split out (CHR 0x0A))"
  from Inr obtain repos st2 where
    t: "trace st2 = trace st @ [Exec GhList (gh_argv user mx)]" and
    g: "getRepos E dir user mx limit st =
       (case clone_vals E ?xs limit dir repos [] st2 of
          Return cloned st3 \<Rightarrow> Return repos st3
        | Exit s \<Rightarrow> Exit s
        | Panic s \<Rightarrow> Panic s)"
    by (rule getRepos_listed [where limit = limit and dir = dir])
  from clone_vals_printed [of E ?xs limit dir repos "[]" st2] obtain new k where
    n: "trace (final (clone_vals E ?xs limit dir repos [] st2)) = trace st2 @ new" and
    d: "\<forall>tr. due E limit tr new = []" and
    p: "map snd (printed new) = take k (filter (\<lambda>x. included x limit) ?xs)" and
    r: "exit_status (clone_vals E ?xs limit dir repos [] st2) = 0 \<longrightarrow>
          map snd (printed new) = filter (\<lambda>x. included x limit) ?xs"
    by (elim exE conjE)
  have a: "answered E limit (trace st) (Exec GhList (gh_argv user mx)) =
           filter (\<lambda>x. included x limit) ?xs"
    using Inr by (simp add: answered_def)
  have 1: "trace (final (getRepos E dir user mx limit st)) =
           trace st @ (Exec GhList (gh_argv user mx) # new)"
    using g n t by simp
  have 2: "map snd (printed (Exec GhList (gh_argv user mx) # new)) =
           take k (due E limit (trace st) (Exec GhList (gh_argv user mx) # new))"
    using p d a by simp
  have 3: "exit_status (getRepos E dir user mx limit st) = 0 \<longrightarrow>
           map snd (printed (Exec GhList (gh_argv user mx) # new)) =
           due E limit (trace st) (Exec GhList (gh_argv user mx) # new)"
    using r d a g by simp
  show ?thesis
    unfolding progresses_def
    by (rule exI [of _ "Exec GhList (gh_argv user mx) # new"], intro conjI exI [of _ k])
       (rule 1, rule 2, rule 3)
qed

lemma getStars_progresses: "progresses E limit st (getStars E dir user mx limit st)"
proof (cases "http_get E (trace st) (starred_url user mx)")
  case (GetError err)
  then show ?thesis
    unfolding progresses_def by (simp add: getStars_def emit_def answered_def)
next
  case (ReadError err)
  then show ?thesis
    unfolding progresses_def by (simp add: getStars_def emit_def answered_def)
next
  case (Body body)
  show ?thesis
  proof (cases "Unmarshal E body")
    case (Inl err)
    with Body show ?thesis
      unfolding progresses_def by (simp add: getStars_def emit_def answered_def)
  next
    case (Inr jsonData)
    let ?xs = "map FullName jsonData"
    from Body Inr obtain repos st2 where
      t: "trace st2 = trace st @ [HttpGet (starred_url user mx)]" and
      g: "getStars E dir user mx limit st =
         (case clone_vals E ?xs limit dir repos [] st2 of
            Return cloned st3 \<Rightarrow> Return repos st3
          | Exit s \<Rightarrow> Exit s
          | Panic s \<Rightarrow> Panic s)"
      by (rule getStars_parsed [where limit = limit and dir = dir])
    from clone_vals_printed [of E ?xs limit dir repos "[]" st2] obtain new k where
      n: "trace (final (clone_vals E ?xs limit dir repos [] st2)) = trace st2 @ new" and
      d: "\<forall>tr. due E limit tr new = []" and
      p: "map snd (printed new) = take k (filter (\<lambda>x. included x limit) ?xs)" and
      r: "exit_status (clone_vals E ?xs limit dir repos [] st2) = 0 \<longrightarrow>
            map snd (printed new) = filter (\<lambda>x. included x limit) ?xs"
      by (elim exE conjE)
    have a: "answered E limit (trace st) (HttpGet (starred_url user mx)) =
             filter (\<lambda>x. included x limit) ?xs"
      using Body Inr by (simp add: answered_def)
    have 1: "trace (final (getStars E dir user mx limit st)) =
             trace st @ (HttpGet (starred_url user mx) # new)"
      using g n t by simp
    have 2: "map snd (printed (HttpGet (starred_url user mx) # new)) =
             take k (due E limit (trace st) (HttpGet (starred_url user mx) # new))"
      using p d a by simp
    have 3: "exit_status (getStars E dir user mx limit st) = 0 \<longrightarrow>
             map snd (printed (HttpGet (starred_url user mx) # new)) =
             due E limit (trace st) (HttpGet (starred_url user mx) # new)"
      using r d a g by simp
    show ?thesis
      unfolding progresses_def
      by (rule exI [of _ "HttpGet (starred_url user mx) # new"], intro conjI exI [of _ k])
         (rule 1, rule 2, rule 3)
  qed
qed

lemma main_users_progresses: "progresses E limit st (main_users E cfg limit users st)"
proof (induction users arbitrary: st)
  case Nil
  show ?case by (simp add: progresses_refl)
next
  case (Cons user users)
  define o1 where "o1 = (if \<not> starsonly cfg
            then getRepos E (output_dir cfg) (TrimSpace user) (maxrepo cfg) limit st
            else Return nil_slice st)"
  have f1: "progresses E limit st o1"
    by (simp add: o1_def getRepos_progresses progresses_refl)
  show ?case
  proof (cases o1)
    case (Exit s)
    with f1 progresses_Exit show ?thesis by (simp add: o1_def [symmetric])
  next
    case (Panic s)
    with f1 progresses_Panic show ?thesis by (simp add: o1_def [symmetric])
  next
    case (Return r1 st1)
    define o2 where "o2 = (if stars cfg \<or> starsonly cfg
                 then getStars E (output_dir cfg) (TrimSpace user) (maxrepo cfg) limit st1
                 else Return nil_slice st1)"
    have f2: "progresses E limit st1 o2"
      by (simp add: o2_def getStars_progresses progresses_refl)
    from f1 Return have f1': "progresses E limit st (Return r1 st1)" by simp
    note f12 = progresses_seq [OF f1' f2]
    show ?thesis
    proof (cases o2)
      case (Exit s)
      with f12 progresses_Exit Return show ?thesis
        by (simp add: o1_def [symmetric] o2_def [symmetric])
    next
      case (Panic s)
      with f12 progresses_Panic Return show ?thesis
        by (simp add: o1_def [symmetric] o2_def [symmetric])
    next
      case r2: (Return r2 st2)
      from f12 r2 have "progresses E limit st (Return r2 st2)" by simp
      from progresses_seq [OF this Cons.IH [of st2]] Return r2 show ?thesis
        by (simp add: o1_def [symmetric] o2_def [symmetric])
    qed
  qed
qed

text \<open>
  Claim C9. In a run of main, which starts with the counter at zero, the counters of the
  progress lines are 1, 2, 3 and so on up to the final value of the counter, over all
  accounts and both discoveries, and the main clones of the run are those of the
  repositories named in the progress lines, one for each line and in the same order. The
  repositories of the progress lines are the included ones among the identifiers that
  the discoveries of the run were answered, discovery after discovery and in the order
  of the answers: all of them, each with one line, in a run that ends with exit status
  0, where the discoveries are those that the flags ask for, for every account; and a
  beginning of them in a run that a fatal error ends. So every included repository adds
  exactly one to the one counter and prints one line with the new value and its
  identifier.
\<close>

theorem progress_counter_is_one_tally:
  "map fst (printed (trace (final (main E cfg init_state)))) =
     [1 .. reponum (final (main E cfg init_state))] \<and>
   main_clones (trace (final (main E cfg init_state))) =
     map (\<lambda>p. main_argv (output_dir cfg) (snd p)) (printed (trace (final (main E cfg init_state)))) \<and>
   (\<exists>k. map snd (printed (trace (final (main E cfg init_state)))) =
          take k (due E (parse_limit (limitslist cfg)) [] (trace (final (main E cfg init_state))))) \<and>
   (exit_status (main E cfg init_state) = 0 \<longrightarrow>
      map snd (printed (trace (final (main E cfg init_state)))) =
        due E (parse_limit (limitslist cfg)) [] (trace (final (main E cfg init_state))) \<and>
      gh_calls (trace (final (main E cfg init_state))) =
        owned_calls cfg (Split (userslist cfg) (CHR '','')) \<and>
      http_calls (trace (final (main E cfg init_state))) =
        starred_calls cfg (Split (userslist cfg) (CHR '','')))"
proof -
  define users where "users = Split (userslist cfg) (CHR '','')"
  define limit where "limit = parse_limit (limitslist cfg)"
  define out where "out = main E cfg init_state"
  have out: "out = main_users E cfg limit users init_state"
    by (simp add: out_def main_def limit_def users_def)
  from main_users_tally [of cfg init_state E limit users]
  have 1: "map fst (printed (trace (final out))) = [1 .. reponum (final out)]"
    and 2: "main_clones (trace (final out)) =
            map (\<lambda>p. main_argv (output_dir cfg) (snd p)) (printed (trace (final out)))"
    by (auto simp: tally_def out init_state_def)
  from main_users_progresses [of E limit init_state cfg users, unfolded progresses_def]
  obtain new k where
    "trace (final out) = trace init_state @ new"
    "map snd (printed new) = take k (due E limit (trace init_state) new)"
    "exit_status out = 0 \<longrightarrow> map snd (printed new) = due E limit (trace init_state) new"
    unfolding out by (elim exE conjE)
  then have 3: "map snd (printed (trace (final out))) = take k (due E limit [] (trace (final out)))"
    and 4: "exit_status out = 0 \<longrightarrow>
            map snd (printed (trace (final out))) = due E limit [] (trace (final out))"
    by (simp_all add: init_state_def)
  from main_users_discovers [of cfg users init_state E limit]
  obtain n m where
    d: "discovers (take n (owned_calls cfg users)) (take m (starred_calls cfg users)) init_state out"
    and e: "exit_status out = 0 \<longrightarrow> length users \<le> n \<and> length users \<le> m"
    unfolding out by (elim exE conjE)
  from d have g: "gh_calls (trace (final out)) = take n (owned_calls cfg users)"
    and h: "http_calls (trace (final out)) = take m (starred_calls cfg users)"
    by (auto simp: discovers_def init_state_def)
  have 5: "exit_status out = 0 \<longrightarrow>
             gh_calls (trace (final out)) = owned_calls cfg users \<and>
             http_calls (trace (final out)) = starred_calls cfg users"
    using g h e by (auto simp: owned_calls_def starred_calls_def)
  have ex3: "\<exists>k. map snd (printed (trace (final out))) = take k (due E limit [] (trace (final out)))"
    using 3 by (rule exI)
  from 1 2 ex3 4 5 show ?thesis
    unfolding out_def users_def limit_def by blast
qed

lemma demo_run:
  "main demo_env (demo_config\<lparr>limitslist := ''a/b,x/y''\<rparr>) init_state =
     Return ()
       \<lparr>reponum = 4, trace = demo_trace,
        heap = [[''a/b''], [''a/b'', ''c/d''], [''a/b'', ''c/d'', ''a/b'', []],
                [''x/y''], [''x/y'', []], [''x/y'', [], ''p/q'', ''x/y''],
                [''a/b''], [''a/b'', ''c/d''], [''a/b'', ''c/d'', ''a/b'', []],
                [''x/y''], [''x/y'', []], [''x/y'', [], ''p/q'', ''x/y'']]\<rparr>"
  by (simp add: demo_trace_def demo_defs run_defs parse_defs main_defs trim_defs upt_rec)

lemma demo_printed:
  "printed demo_trace = [(1, ''a/b''), (2, ''x/y''), (3, ''a/b''), (4, ''x/y'')]"
  by (simp add: demo_trace_def)


lemma demo_due:
  "due demo_env (parse_limit ''a/b,x/y'') [] demo_trace = [''a/b'', ''x/y'', ''a/b'', ''x/y'']"
  by (simp add: demo_trace_def answered_def demo_defs included_def parse_defs main_defs trim_defs)

text \<open>
  Two accounts with owned and starred repositories, \<open>a/b\<close> and \<open>x/y\<close> allowed: the
  run ends with exit status 0, what is due is \<open>a/b\<close>, \<open>x/y\<close> for each account, and
  the tally runs from 1 to 4 over them.
\<close>

theorem progress_counter_is_one_tally_witness:
  "exit_status (main demo_env (demo_config\<lparr>limitslist := ''a/b,x/y''\<rparr>) init_state) = 0 \<and>
   printed (trace (final (main demo_env (demo_config\<lparr>limitslist := ''a/b,x/y''\<rparr>) init_state))) =
     [(1, ''a/b''), (2, ''x/y''), (3, ''a/b''), (4, ''x/y'')] \<and>
   reponum (final (main demo_env (demo_config\<lparr>limitslist := ''a/b,x/y''\<rparr>) init_state)) = 4 \<and>
   due demo_env (parse_limit (limitslist (demo_config\<lparr>limitslist := ''a/b,x/y''\<rparr>))) []
     (trace (final (main demo_env (demo_config\<lparr>limitslist := ''a/b,x/y''\<rparr>) init_state))) =
     [''a/b'', ''x/y'', ''a/b'', ''x/y'']"
  using progress_counter_is_one_tally
          [where E = demo_env and cfg = "demo_config\<lparr>limitslist := ''a/b,x/y''\<rparr>"]
  by (simp add: demo_run demo_printed demo_due)

end
